theory Spec2Isabelle
  imports Main "HOL-Library.Sublist" "HOL-Library.AList"
begin

section \<open>The fullscreen manager of plugin-block-fullscreen\<close>

text \<open>
  This theory embeds the class \<open>FullscreenManager\<close> (file
  \<open>FullscreenBlockSchemaSettings.tsx\<close>, lines 769 to 1069) and proves or refutes the
  properties the specification states about it. The manager's fields and the part of
  the browser it talks to (the element tree, inline styles, the style elements appended
  to \<open>document.head\<close>, the console) are one explicit state, passed through every method.
\<close>

subsection \<open>Placeholder substitution\<close>

text \<open>
  \<open>processFullscreenStyle\<close> is
  \<^verbatim>\<open>style.replace(/\$\{blockId\}/g, `#${blockId} `)\<close>.
  The regular expression matches the ten characters \<open>${blockId}\<close> literally, and the
  global flag replaces every match found by a left-to-right scan that resumes after
  the end of each match.
\<close>

definition placeholder :: string where
  "placeholder = ''${blockId}''"

text \<open>
  The second argument of \<open>String.prototype.replace\<close> is a template: ECMAScript's
  \<open>GetSubstitution\<close> expands \<open>$$\<close> to a dollar sign, \<open>$&\<close> to the matched text,
  \<open>$`\<close> (dollar, backquote) to the part of the subject before the match and
  \<open>$'\<close> (dollar, apostrophe) to the part after it. The pattern has no capture group,
  so \<open>$1\<close> to \<open>$99\<close> and \<open>$<\<close> stand for themselves, as does a dollar sign followed
  by anything else or by nothing. Arguments: matched text, text before the match,
  text after the match, template.
\<close>

fun getSubstitution :: "string \<Rightarrow> string \<Rightarrow> string \<Rightarrow> string \<Rightarrow> string" where
  "getSubstitution m b a [] = []"
| "getSubstitution m b a [c] = [c]"
| "getSubstitution m b a (c # d # t) =
     (if c = CHR ''$'' then
        (if d = CHR ''$'' then CHR ''$'' # getSubstitution m b a t
         else if d = CHR ''&'' then m @ getSubstitution m b a t
         else if d = CHR 0x60 then b @ getSubstitution m b a t
         else if d = CHR 0x27 then a @ getSubstitution m b a t
         else c # getSubstitution m b a (d # t))
      else c # getSubstitution m b a (d # t))"

text \<open>
  The scan of the global replace. \<open>seen\<close> is the part of the subject already passed
  (what \<open>$`\<close> expands to), the last argument is the part still to scan.
\<close>

function replacePlaceholder :: "string \<Rightarrow> string \<Rightarrow> string \<Rightarrow> string" where
  "replacePlaceholder tpl seen [] = []"
| "replacePlaceholder tpl seen (c # cs) =
     (if prefix placeholder (c # cs)
      then getSubstitution placeholder seen (drop (length placeholder) (c # cs)) tpl
           @ replacePlaceholder tpl (seen @ placeholder) (drop (length placeholder) (c # cs))
      else c # replacePlaceholder tpl (seen @ [c]) cs)"
  by pat_completeness auto
termination
  by (relation "measure (\<lambda>(tpl, seen, s). length s)") (auto simp: placeholder_def)

definition processFullscreenStyle :: "string \<Rightarrow> string \<Rightarrow> string" where
  "processFullscreenStyle style blockId =
     replacePlaceholder (''#'' @ blockId @ '' '') [] style"

text \<open>
  The words of the specification: a text \<open>contains\<close> a token \<open>n\<close> times when the token
  starts at \<open>n\<close> positions of the text. The container-scoped selector of an identifier
  is the text the code substitutes: a hash sign, the identifier, a space.
\<close>

fun occurrences :: "string \<Rightarrow> string \<Rightarrow> nat" where
  "occurrences pat [] = (if pat = [] then 1 else 0)"
| "occurrences pat (c # cs) = (if prefix pat (c # cs) then 1 else 0) + occurrences pat cs"

definition scopedSelector :: "string \<Rightarrow> string" where
  "scopedSelector blockId = ''#'' @ blockId @ '' ''"

subsection \<open>Elements, inline styles and the document\<close>

text \<open>
  The fourteen properties of \<open>StyleProperties\<close>, which are the keys of
  \<open>FULLSCREEN_STYLES\<close> and so the members of \<open>STYLES_TO_SAVE\<close>.
\<close>

datatype styleProp =
    Position | Top | Left | Width | Height | ZIndex | Background | Overflow
  | Margin | Padding | MarginBottom | BoxSizing | MaxHeight | Display

text \<open>
  An element carries its \<open>id\<close>, its inline style (\<open>element.style\<close>: a table from
  property to text, the empty text for a property that is not set), what
  \<open>getComputedStyle\<close> answers for its \<open>display\<close>, and its child elements.

  The inline style is kept as fourteen independent cells: an assignment
  \<open>element.style[prop] = value\<close> stores the text as it is and touches no other
  property. A browser does more than that. It normalises the value it is given, and
  \<open>margin\<close> is a shorthand that covers \<open>marginBottom\<close>, so that an assignment to one
  of the two changes what the other reads. The theorems below that read a style back
  are about these cells; which values the manager assigns, and in which order, does not
  depend on them.

  \<open>usedDisplay\<close> is \<open>getComputedStyle(e).display\<close> as a function of the element's own
  inline \<open>display\<close>, the rest of the document being as it is: the style-sheet value
  when the inline \<open>display\<close> is not set, the blockified value for an item of a flex
  container, the empty text for every element of a tree that is not in the document.
  It is a parameter of the element: the model does not compute it.
\<close>

datatype element =
  Element (elemId: string) (inlineStyle: "styleProp \<Rightarrow> string")
    (usedDisplay: "string \<Rightarrow> string") (childElements: "element list")

text \<open>
  An element reference names a node by its position: the tree it lives in
  (\<open>document.body\<close> or one of the trees that are not attached to the document) and the
  child indices from the node up to the root of that tree, so that the parent of
  \<open>(t, i # p)\<close> is \<open>(t, p)\<close> and the root is \<open>(t, [])\<close>. No method of the manager
  adds, moves or removes an element, so positions are stable identities here. The
  \<open>html\<close> and \<open>head\<close> elements are outside the model; of \<open>head\<close> only the style
  elements appended to it are kept (\<open>headStyles\<close>).
\<close>

datatype root = Body | Loose nat

type_synonym nodeRef = "root \<times> nat list"

record ElementState =
  originalStyles :: "(styleProp \<times> string option) list"
  hiddenElements :: "(nodeRef \<times> string) list"

datatype logEntry = ConsoleWarn string | ConsoleError string

datatype exn = TypeError

text \<open>
  The state: the document (\<open>documentBody\<close>, \<open>detached\<close>, \<open>headStyles\<close> with the
  identity of each style element, \<open>styleNodesCreated\<close> counting the style elements
  created so far), the three private fields of the manager, and the console. The
  \<open>Map\<close> \<open>elementStates\<close> is an association list in insertion order, which is the
  order \<open>Map.prototype.forEach\<close> visits. \<open>cleanupTimer\<close> holds the delay of the
  pending timeout.
\<close>

record world =
  documentBody :: element
  detached :: "element list"
  headStyles :: "(nat \<times> string) list"
  styleNodesCreated :: nat
  elementStates :: "(string \<times> ElementState) list"
  fullscreenStyleElement :: "nat option"
  cleanupTimer :: "nat option"
  console :: "logEntry list"

fun descend :: "element \<Rightarrow> nat list \<Rightarrow> element option" where
  "descend e [] = Some e"
| "descend e (i # p) =
     (if i < length (childElements e) then descend (childElements e ! i) p else None)"

fun modifyAt :: "(element \<Rightarrow> element) \<Rightarrow> nat list \<Rightarrow> element \<Rightarrow> element" where
  "modifyAt f [] e = f e"
| "modifyAt f (i # p) (Element n s c ks) =
     (if i < length ks then Element n s c (ks[i := modifyAt f p (ks ! i)])
      else Element n s c ks)"

fun rootElement :: "world \<Rightarrow> root \<Rightarrow> element option" where
  "rootElement w Body = Some (documentBody w)"
| "rootElement w (Loose k) = (if k < length (detached w) then Some (detached w ! k) else None)"

fun modifyRoot :: "(element \<Rightarrow> element) \<Rightarrow> root \<Rightarrow> world \<Rightarrow> world" where
  "modifyRoot g Body w = w\<lparr>documentBody := g (documentBody w)\<rparr>"
| "modifyRoot g (Loose k) w =
     (if k < length (detached w) then w\<lparr>detached := (detached w)[k := g (detached w ! k)]\<rparr>
      else w)"

definition lookupEl :: "world \<Rightarrow> nodeRef \<Rightarrow> element option" where
  "lookupEl w r =
     (case rootElement w (fst r) of None \<Rightarrow> None | Some t \<Rightarrow> descend t (rev (snd r)))"

text \<open>\<open>hiddenElement?.nodeType === Node.ELEMENT_NODE\<close>: the reference denotes an element.\<close>

definition isElement :: "world \<Rightarrow> nodeRef \<Rightarrow> bool" where
  "isElement w r = (lookupEl w r \<noteq> None)"

definition elementId :: "world \<Rightarrow> nodeRef \<Rightarrow> string" where
  "elementId w r = (case lookupEl w r of None \<Rightarrow> [] | Some e \<Rightarrow> elemId e)"

definition getStyle :: "world \<Rightarrow> nodeRef \<Rightarrow> styleProp \<Rightarrow> string" where
  "getStyle w r p = (case lookupEl w r of None \<Rightarrow> [] | Some e \<Rightarrow> inlineStyle e p)"

definition computedDisplay :: "world \<Rightarrow> nodeRef \<Rightarrow> string" where
  "computedDisplay w r =
     (case lookupEl w r of None \<Rightarrow> [] | Some e \<Rightarrow> usedDisplay e (inlineStyle e Display))"

fun withStyle :: "styleProp \<Rightarrow> string \<Rightarrow> element \<Rightarrow> element" where
  "withStyle p v (Element n s c ks) = Element n (s(p := v)) c ks"

definition setStyle :: "nodeRef \<Rightarrow> styleProp \<Rightarrow> string \<Rightarrow> world \<Rightarrow> world" where
  "setStyle r p v w = modifyRoot (modifyAt (withStyle p v) (rev (snd r))) (fst r) w"

definition documentBodyRef :: nodeRef where
  "documentBodyRef = (Body, [])"

text \<open>
  \<open>parentElement\<close> of the root of a tree is \<open>null\<close>. For \<open>document.body\<close> itself the
  browser answers \<open>html\<close>, but the only reader, the loop of \<open>saveElementState\<close>, stops
  at \<open>document.body\<close> before it asks.
\<close>

fun parentElement :: "nodeRef \<Rightarrow> nodeRef option" where
  "parentElement (t, []) = None"
| "parentElement (t, i # p) = Some (t, p)"

definition childrenOf :: "world \<Rightarrow> nodeRef \<Rightarrow> nodeRef list" where
  "childrenOf w r =
     (case lookupEl w r of None \<Rightarrow> []
      | Some e \<Rightarrow> map (\<lambda>i. (fst r, i # snd r)) [0..<length (childElements e)])"

text \<open>\<open>a.contains(b)\<close>: \<open>b\<close> is \<open>a\<close> or a descendant of \<open>a\<close>.\<close>

definition containsNode :: "nodeRef \<Rightarrow> nodeRef \<Rightarrow> bool" where
  "containsNode a b = (fst a = fst b \<and> suffix (snd a) (snd b))"

text \<open>
  \<open>document.getElementById\<close>: the first element of the document, in tree order, whose
  id is the one asked for; the empty text is no id.
\<close>

fun subtreeRefs :: "root \<Rightarrow> nat list \<Rightarrow> element \<Rightarrow> nodeRef list"
  and childRefsFrom :: "root \<Rightarrow> nat list \<Rightarrow> nat \<Rightarrow> element list \<Rightarrow> nodeRef list" where
  "subtreeRefs t p (Element n s c ks) = (t, p) # childRefsFrom t p 0 ks"
| "childRefsFrom t p i [] = []"
| "childRefsFrom t p i (k # ks) = subtreeRefs t (i # p) k @ childRefsFrom t p (Suc i) ks"

definition getElementById :: "world \<Rightarrow> string \<Rightarrow> nodeRef option" where
  "getElementById w i =
     (if i = [] then None
      else find (\<lambda>r. elementId w r = i) (subtreeRefs Body [] (documentBody w)))"

subsection \<open>The manager\<close>

definition FULLSCREEN_STYLES :: "(styleProp \<times> string) list" where
  "FULLSCREEN_STYLES =
     [(Position, ''fixed''), (Top, ''0''), (Left, ''0''), (Width, ''100vw''),
      (Height, ''100vh''), (ZIndex, ''9999''), (Background, ''#fff''), (Overflow, ''auto''),
      (Margin, ''0''), (Padding, ''0''), (MarginBottom, ''0''), (BoxSizing, ''border-box''),
      (MaxHeight, ''100vh''), (Display, ''block'')]"

definition STYLES_TO_SAVE :: "styleProp list" where
  "STYLES_TO_SAVE = map fst FULLSCREEN_STYLES"

definition addScopedStyle :: "string \<Rightarrow> world \<Rightarrow> nat \<times> world" where
  "addScopedStyle cssString w =
     (styleNodesCreated w,
      w\<lparr>headStyles := headStyles w @ [(styleNodesCreated w, cssString)],
        styleNodesCreated := Suc (styleNodesCreated w)\<rparr>)"

text \<open>A style element has a \<open>parentNode\<close> exactly while it is among \<open>headStyles\<close>.\<close>

definition removeAddedStyle :: "nat option \<Rightarrow> world \<Rightarrow> world" where
  "removeAddedStyle styleElementToRemove w =
     (case styleElementToRemove of
        None \<Rightarrow> w
      | Some h \<Rightarrow>
          if h \<in> fst ` set (headStyles w)
          then w\<lparr>headStyles := filter (\<lambda>b. fst b \<noteq> h) (headStyles w)\<rparr>
          else w)"

text \<open>One step of the inner \<open>forEach\<close> of \<open>saveElementState\<close>, for one child of the parent.\<close>

definition hideSibling ::
  "nodeRef \<Rightarrow> nodeRef \<Rightarrow> (nodeRef \<times> string) list \<times> world \<Rightarrow> (nodeRef \<times> string) list \<times> world"
where
  "hideSibling current sibling acc =
     (case acc of (hidden, w) \<Rightarrow>
        if sibling \<noteq> current \<and> \<not> containsNode current sibling \<and> \<not> containsNode sibling current
        then (hidden @ [(sibling, computedDisplay w sibling)], setStyle sibling Display ''none'' w)
        else (hidden, w))"

text \<open>
  The loop \<open>while (current && current !== document.body)\<close>; \<open>Array.from\<close> takes the
  children once, before the inner loop changes any style.
\<close>

function hideSiblingsLoop ::
  "nodeRef option \<Rightarrow> (nodeRef \<times> string) list \<times> world \<Rightarrow> (nodeRef \<times> string) list \<times> world"
where
  "hideSiblingsLoop None acc = acc"
| "hideSiblingsLoop (Some current) acc =
     (if current = documentBodyRef then acc
      else hideSiblingsLoop (parentElement current)
             (case parentElement current of
                None \<Rightarrow> acc
              | Some parent \<Rightarrow>
                  foldl (\<lambda>a sibling. hideSibling current sibling a) acc (childrenOf (snd acc) parent)))"
  by pat_completeness auto
termination
  by (relation "measure (\<lambda>(c, acc). case c of None \<Rightarrow> 0 | Some r \<Rightarrow> Suc (length (snd r)))")
     (auto split: option.splits elim: parentElement.elims)

definition saveElementState :: "nodeRef \<Rightarrow> world \<Rightarrow> ElementState \<times> world" where
  "saveElementState element w =
     (let saved = map (\<lambda>prop. (prop, Some (getStyle w element prop))) STYLES_TO_SAVE;
          (hidden, w') = hideSiblingsLoop (Some element) ([], w)
      in (\<lparr>originalStyles = saved, hiddenElements = hidden\<rparr>, w'))"

definition restoreElementState :: "nodeRef \<Rightarrow> ElementState \<Rightarrow> world \<Rightarrow> world" where
  "restoreElementState element state w =
     (let w1 = foldl (\<lambda>w prop. setStyle element prop [] w) w STYLES_TO_SAVE;
          w2 = foldl (\<lambda>w (prop, val). case val of None \<Rightarrow> w | Some v \<Rightarrow> setStyle element prop v w)
                 w1 (originalStyles state);
          w3 = foldl (\<lambda>w (hiddenElement, originalDisplay).
                        if isElement w hiddenElement
                        then setStyle hiddenElement Display originalDisplay w else w)
                 w2 (hiddenElements state)
      in w3)"

text \<open>
  The body of the \<open>try\<close> block of \<open>toggleFullscreen\<close>. A \<open>null\<close> element raises a
  \<open>TypeError\<close> at the first property read (\<open>element.style\<close> when entering,
  \<open>element.id\<close> when leaving), before anything has been changed. The \<open>Map\<close>
  operations \<open>set\<close>, \<open>get\<close> and \<open>delete\<close> are \<open>AList.update\<close> (replace in place or
  append), \<open>map_of\<close> and \<open>AList.delete\<close>.
\<close>

definition toggleFullscreenTry :: "nodeRef option \<Rightarrow> bool \<Rightarrow> string \<Rightarrow> world \<Rightarrow> exn + world" where
  "toggleFullscreenTry elementArg isFullscreen fullscreenStyle w =
     (case elementArg of
        None \<Rightarrow> Inl TypeError
      | Some element \<Rightarrow>
          if isFullscreen then
            (let (state, w1) = saveElementState element w;
                 w2 = w1\<lparr>elementStates := AList.update (elementId w1 element) state (elementStates w1)\<rparr>;
                 w3 = foldl (\<lambda>w (prop, val). setStyle element prop val w) w2 FULLSCREEN_STYLES
             in if fullscreenStyle \<noteq> [] then
                  (let processedStyle = processFullscreenStyle fullscreenStyle (elementId w3 element);
                       (h, w4) = addScopedStyle processedStyle w3
                   in Inr (w4\<lparr>fullscreenStyleElement := Some h\<rparr>))
                else Inr w3)
          else
            (case map_of (elementStates w) (elementId w element) of
               None \<Rightarrow>
                 Inr (w\<lparr>console := console w
                          @ [ConsoleWarn (''No saved state found for element '' @ elementId w element)]\<rparr>)
             | Some state \<Rightarrow>
                 (let w1 = restoreElementState element state w;
                      w2 = w1\<lparr>elementStates := AList.delete (elementId w1 element) (elementStates w1)\<rparr>
                  in case fullscreenStyleElement w2 of
                       None \<Rightarrow> Inr w2
                     | Some h \<Rightarrow>
                         Inr ((removeAddedStyle (Some h) w2)\<lparr>fullscreenStyleElement := None\<rparr>))))"

text \<open>
  \<open>toggleFullscreen\<close> catches whatever its body throws and writes it to the console,
  so the caller always gets a normal return. The only throw of the body comes before
  its first write, so the state the handler logs into is the one the call started from.
\<close>

definition toggleFullscreen :: "nodeRef option \<Rightarrow> bool \<Rightarrow> string \<Rightarrow> world \<Rightarrow> exn + world" where
  "toggleFullscreen elementArg isFullscreen fullscreenStyle w =
     (case toggleFullscreenTry elementArg isFullscreen fullscreenStyle w of
        Inl error \<Rightarrow> Inr (w\<lparr>console := console w @ [ConsoleError ''Error toggling fullscreen:'']\<rparr>)
      | Inr w' \<Rightarrow> Inr w')"

definition isElementFullscreen :: "nodeRef option \<Rightarrow> world \<Rightarrow> exn + bool" where
  "isElementFullscreen elementArg w =
     (case elementArg of
        None \<Rightarrow> Inl TypeError
      | Some element \<Rightarrow> Inr (map_of (elementStates w) (elementId w element) \<noteq> None))"

definition exitFullscreen :: "nodeRef option \<Rightarrow> world \<Rightarrow> exn + world" where
  "exitFullscreen elementArg w =
     (case isElementFullscreen elementArg w of
        Inl error \<Rightarrow> Inl error
      | Inr b \<Rightarrow> if b then toggleFullscreen elementArg False [] w else Inr w)"

text \<open>Running one call after another; a throw ends the sequence.\<close>

definition andThen :: "exn + world \<Rightarrow> (world \<Rightarrow> exn + world) \<Rightarrow> exn + world" where
  "andThen r f = (case r of Inl error \<Rightarrow> Inl error | Inr w \<Rightarrow> f w)"

text \<open>
  The callback of the \<open>forEach\<close> in \<open>cleanup\<close>, with its \<open>try\<close> and \<open>catch\<close>.
  \<open>getElementById\<close> answers an element or \<open>null\<close>, so the test of \<open>nodeType\<close> adds
  nothing to the test for \<open>null\<close>.
\<close>

definition cleanupEntry :: "string \<Rightarrow> world \<Rightarrow> world" where
  "cleanupEntry elementId' w =
     (case getElementById w elementId' of
        Some element \<Rightarrow>
          (case exitFullscreen (Some element) w of
             Inr w' \<Rightarrow> w'
           | Inl error \<Rightarrow>
               w\<lparr>console := console w @ [ConsoleWarn (''Failed to cleanup element with ID: '' @ elementId')],
                 elementStates := AList.delete elementId' (elementStates w)\<rparr>)
      | None \<Rightarrow> w\<lparr>elementStates := AList.delete elementId' (elementStates w)\<rparr>)"

text \<open>
  \<open>Map.prototype.forEach\<close> over the keys present when it starts: an entry that has been
  deleted by the time its turn comes is not visited. No callback here adds an entry.
\<close>

fun forEachState :: "(string \<Rightarrow> world \<Rightarrow> world) \<Rightarrow> string list \<Rightarrow> world \<Rightarrow> world" where
  "forEachState f [] w = w"
| "forEachState f (k # ks) w =
     (if map_of (elementStates w) k \<noteq> None then forEachState f ks (f k w)
      else forEachState f ks w)"

definition cleanup :: "world \<Rightarrow> world" where
  "cleanup w =
     (let w1 = w\<lparr>cleanupTimer := None\<rparr>;
          w2 = forEachState cleanupEntry (map fst (elementStates w1)) w1;
          w3 = w2\<lparr>elementStates := []\<rparr>
      in case fullscreenStyleElement w3 of
           None \<Rightarrow> w3
         | Some h \<Rightarrow> (removeAddedStyle (Some h) w3)\<lparr>fullscreenStyleElement := None\<rparr>)"

text \<open>
  \<open>schedulePeriodicCleanup\<close> clears the pending timeout, if any, and arms a new one.
  \<open>sweepTick\<close> is the callback that runs when the timeout fires.
\<close>

definition schedulePeriodicCleanup :: "nat \<Rightarrow> world \<Rightarrow> world" where
  "schedulePeriodicCleanup intervalMs w = w\<lparr>cleanupTimer := Some intervalMs\<rparr>"

definition sweepTick :: "nat \<Rightarrow> world \<Rightarrow> world" where
  "sweepTick intervalMs w =
     (let invalidIds = filter (\<lambda>i. getElementById w i = None) (map fst (elementStates w));
          w1 = foldl (\<lambda>w i. w\<lparr>elementStates := AList.delete i (elementStates w)\<rparr>) w invalidIds
      in schedulePeriodicCleanup intervalMs w1)"

subsection \<open>Notions used in the proofs\<close>

text \<open>
  What a node holds apart from its children: the proofs compare documents node by node.
\<close>

definition nodeInfo ::
  "element \<Rightarrow> string \<times> (styleProp \<Rightarrow> string) \<times> (string \<Rightarrow> string) \<times> nat" where
  "nodeInfo e = (elemId e, inlineStyle e, usedDisplay e, length (childElements e))"

definition info ::
  "world \<Rightarrow> nodeRef \<Rightarrow> (string \<times> (styleProp \<Rightarrow> string) \<times> (string \<Rightarrow> string) \<times> nat) option" where
  "info w r = map_option nodeInfo (lookupEl w r)"

text \<open>
  The test of the inner loop of \<open>saveElementState\<close>, and the siblings the whole loop
  suppresses: at each level from the element up, the children of the parent that pass
  the test. \<open>hideAll\<close> sets their inline \<open>display\<close> to \<open>none\<close>.
\<close>

definition unrelated :: "nodeRef \<Rightarrow> nodeRef \<Rightarrow> bool" where
  "unrelated current sibling =
     (sibling \<noteq> current \<and> \<not> containsNode current sibling \<and> \<not> containsNode sibling current)"

fun hideTargets :: "world \<Rightarrow> root \<Rightarrow> nat list \<Rightarrow> nodeRef list" where
  "hideTargets w t [] = []"
| "hideTargets w t (i # p) = filter (unrelated (t, i # p)) (childrenOf w (t, p)) @ hideTargets w t p"

definition hideAll :: "nodeRef list \<Rightarrow> world \<Rightarrow> world" where
  "hideAll ts w = foldl (\<lambda>w s. setStyle s Display ''none'' w) w ts"

text \<open>
  The three loops of \<open>restoreElementState\<close> and the loop over \<open>FULLSCREEN_STYLES\<close>,
  named: \<open>applyStyles\<close> assigns a list of properties to one element, \<open>restoreHidden\<close>
  gives the recorded \<open>display\<close> back to each recorded sibling, \<open>definedStyles\<close>
  keeps the saved properties that have a value.
\<close>

definition applyStyles :: "nodeRef \<Rightarrow> (styleProp \<times> string) list \<Rightarrow> world \<Rightarrow> world" where
  "applyStyles e kvs w = foldl (\<lambda>w (prop, val). setStyle e prop val w) w kvs"

definition restoreHidden :: "(nodeRef \<times> string) list \<Rightarrow> world \<Rightarrow> world" where
  "restoreHidden hs w =
     foldl (\<lambda>w (hiddenElement, originalDisplay).
              if isElement w hiddenElement then setStyle hiddenElement Display originalDisplay w else w)
       w hs"

definition definedStyles :: "(styleProp \<times> string option) list \<Rightarrow> (styleProp \<times> string) list" where
  "definedStyles os = concat (map (\<lambda>(p, v). case v of None \<Rightarrow> [] | Some x \<Rightarrow> [(p, x)]) os)"

text \<open>
  The state \<open>saveElementState\<close> returns, the state after \<open>toggleFullscreen\<close> has
  entered, and the state after it has left with a session found, each in closed form.
\<close>

definition savedState :: "nodeRef \<Rightarrow> world \<Rightarrow> ElementState" where
  "savedState e w =
     \<lparr>originalStyles = map (\<lambda>prop. (prop, Some (getStyle w e prop))) STYLES_TO_SAVE,
      hiddenElements = map (\<lambda>s. (s, computedDisplay w s)) (hideTargets w (fst e) (snd e))\<rparr>"

definition entered :: "nodeRef \<Rightarrow> string \<Rightarrow> world \<Rightarrow> world" where
  "entered e sty w =
     (let wc = applyStyles e FULLSCREEN_STYLES
                 ((hideAll (hideTargets w (fst e) (snd e)) w)
                    \<lparr>elementStates := AList.update (elementId w e) (savedState e w) (elementStates w)\<rparr>)
      in if sty \<noteq> []
         then wc\<lparr>headStyles := headStyles w @ [(styleNodesCreated w, processFullscreenStyle sty (elementId w e))],
                 styleNodesCreated := Suc (styleNodesCreated w),
                 fullscreenStyleElement := Some (styleNodesCreated w)\<rparr>
         else wc)"

definition exited :: "nodeRef \<Rightarrow> ElementState \<Rightarrow> world \<Rightarrow> world" where
  "exited e st w =
     (let w2 = (restoreElementState e st w)
                 \<lparr>elementStates := AList.delete (elementId w e) (elementStates w)\<rparr>
      in case fullscreenStyleElement w of
           None \<Rightarrow> w2
         | Some h \<Rightarrow> (removeAddedStyle (Some h) w2)\<lparr>fullscreenStyleElement := None\<rparr>)"

subsection \<open>An example document\<close>

text \<open>
  A page with a parent \<open>P\<close> that holds the container \<open>A\<close> (which has a nested block
  \<open>inner\<close>) and its siblings \<open>B\<close> and \<open>C\<close>; next to \<open>P\<close> a second element
  whose id is also \<open>A\<close>; and one element \<open>D\<close> that is not attached to the document.
  No session exists and no style element has been added. \<open>inFlow\<close> is the computed
  \<open>display\<close> of an element of the document that no rule blockifies, \<open>outsideDocument\<close>
  that of an element of a tree outside the document.
\<close>

definition unstyled :: "styleProp \<Rightarrow> string" where
  "unstyled = (\<lambda>prop. [])"

definition inFlow :: "string \<Rightarrow> string \<Rightarrow> string" where
  "inFlow sheet d = (if d = [] then sheet else d)"

definition outsideDocument :: "string \<Rightarrow> string" where
  "outsideDocument d = []"

definition exampleBody :: element where
  "exampleBody =
     Element ''page'' unstyled (inFlow ''block'')
       [Element ''P'' unstyled (inFlow ''block'')
          [Element ''A'' (unstyled(MarginBottom := ''8px'')) (inFlow ''flex'')
             [Element ''inner'' unstyled (inFlow ''block'') []],
           Element ''B'' unstyled (inFlow ''block'') [],
           Element ''C'' (unstyled(Display := ''inline'')) (inFlow ''block'') []],
        Element ''A'' unstyled (inFlow ''block'') []]"

definition exampleWorld :: world where
  "exampleWorld =
     \<lparr>documentBody = exampleBody, detached = [Element ''D'' unstyled outsideDocument []], headStyles = [],
      styleNodesCreated = 0, elementStates = [], fullscreenStyleElement = None,
      cleanupTimer = None, console = []\<rparr>"

definition refA :: nodeRef where "refA = (Body, [0, 0])"
definition refB :: nodeRef where "refB = (Body, [1, 0])"
definition refC :: nodeRef where "refC = (Body, [2, 0])"
definition refTwin :: nodeRef where "refTwin = (Body, [1])"
definition refInner :: nodeRef where "refInner = (Body, [0, 0, 0])"
definition refD :: nodeRef where "refD = (Loose 0, [])"

text \<open>
  States reached from the example: \<open>A\<close> entered with a style text; then \<open>inner\<close>
  entered with its own; then \<open>A\<close> left; then \<open>inner\<close> left. \<open>A\<close> entered twice
  without a style text. \<open>D\<close> entered. And \<open>A\<close> entered, after which the content of
  the page has been removed from the document without a call to the manager.
\<close>

definition enteredA :: world where
  "enteredA = projr (toggleFullscreen (Some refA) True ''${blockId}.x { }'' exampleWorld)"

definition enteredNested :: world where
  "enteredNested = projr (toggleFullscreen (Some refInner) True ''${blockId}.y { }'' enteredA)"

definition leftA :: world where
  "leftA = projr (toggleFullscreen (Some refA) False [] enteredNested)"

definition leftBoth :: world where
  "leftBoth = projr (toggleFullscreen (Some refInner) False [] leftA)"

definition enteredTwice :: world where
  "enteredTwice =
     projr (toggleFullscreen (Some refA) True [] (projr (toggleFullscreen (Some refA) True [] exampleWorld)))"

definition enteredD :: world where
  "enteredD = projr (toggleFullscreen (Some refD) True [] exampleWorld)"




definition detachedWorld :: world where
  "detachedWorld =
     exampleWorld\<lparr>detached :=
       [Element ''box'' unstyled outsideDocument
          [Element ''K'' unstyled outsideDocument [],
           Element ''S'' (unstyled(Display := ''inline-block'')) outsideDocument []]]\<rparr>"

definition refK :: nodeRef where "refK = (Loose 0, [0])"
definition refS :: nodeRef where "refS = (Loose 0, [1])"

definition destroyedA :: world where
  "destroyedA = enteredA\<lparr>documentBody := Element ''page'' unstyled (inFlow ''block'') []\<rparr>"

section \<open>Properties\<close>

subsection \<open>Placeholder substitution\<close>

lemma getSubstitution_plain: "CHR ''$'' \<notin> set t \<Longrightarrow> getSubstitution m b a t = t"
  by (induction m b a t rule: getSubstitution.induct) auto

lemma occ_after_match:
  "prefix placeholder s \<Longrightarrow> occurrences placeholder (tl s) = occurrences placeholder (drop (length placeholder) s)"
  by (auto simp: placeholder_def prefix_def)

lemma occ_append_ge: "occurrences p r \<le> occurrences p (xs @ r)"
  by (induction xs) auto

lemma occ_self_append: "p \<noteq> [] \<Longrightarrow> Suc (occurrences p r) \<le> occurrences p (p @ r)"
proof (cases p)
  case Nil then show "p \<noteq> [] \<Longrightarrow> ?thesis" by simp
next
  case (Cons c t)
  have "occurrences p r \<le> occurrences p (t @ r)" by (rule occ_append_ge)
  then show ?thesis using Cons by simp
qed

lemma prefix_replace:
  "CHR ''#'' \<notin> set p \<Longrightarrow> CHR ''$'' \<notin> set i \<Longrightarrow> prefix p (replacePlaceholder (CHR ''#'' # i @ '' '') b s) \<Longrightarrow> prefix p s"
proof (induction s arbitrary: p b)
  case Nil then show ?case by simp
next
  case (Cons c cs)
  show ?case
  proof (cases "prefix placeholder (c # cs)")
    case True
    with Cons.prems show ?thesis
      by (cases p) (auto simp: getSubstitution_plain)
  next
    case False
    with Cons.prems Cons.IH show ?thesis
      by (cases p) auto
  qed
qed

lemma occ_skip: "CHR ''$'' \<notin> set t \<Longrightarrow> occurrences placeholder (t @ r) = occurrences placeholder r"
  by (induction t) (auto simp: placeholder_def)

lemma placeholder_no_hash: "CHR ''#'' \<notin> set placeholder"
  by (simp add: placeholder_def)

lemma replace_match:
  assumes "prefix placeholder (c # cs)" and "CHR ''$'' \<notin> set tpl"
  shows "replacePlaceholder tpl seen (c # cs) =
         tpl @ replacePlaceholder tpl (seen @ placeholder) (drop (length placeholder) (c # cs))"
  using assms by (simp add: getSubstitution_plain del: drop_Suc_Cons)

lemma replace_no_placeholder:
  "CHR ''$'' \<notin> set i \<Longrightarrow> occurrences placeholder (replacePlaceholder (CHR ''#'' # i @ '' '') b s) = 0"
proof (induction "CHR ''#'' # i @ '' ''" b s rule: replacePlaceholder.induct)
  case (1 seen)
  then show ?case by (simp add: placeholder_def)
next
  case (2 seen c cs)
  let ?sel = "CHR ''#'' # i @ '' ''"
  show ?case
  proof (cases "prefix placeholder (c # cs)")
    case True
    have plain: "CHR ''$'' \<notin> set ?sel" using "2.prems" by simp
    have "occurrences placeholder (replacePlaceholder ?sel (seen @ placeholder) (drop (length placeholder) (c # cs))) = 0"
      using "2.hyps"(1) [OF True] "2.prems" by blast
    then show ?thesis
      unfolding replace_match [OF True plain] occ_skip [OF plain] .
  next
    case False
    have "\<not> prefix placeholder (replacePlaceholder ?sel seen (c # cs))"
      using prefix_replace [OF placeholder_no_hash "2.prems"] False by blast
    moreover have "replacePlaceholder ?sel seen (c # cs) = c # replacePlaceholder ?sel (seen @ [c]) cs"
      using False by simp
    moreover have "occurrences placeholder (replacePlaceholder ?sel (seen @ [c]) cs) = 0"
      using "2.hyps"(2) [OF False] "2.prems" by blast
    ultimately show ?thesis by simp
  qed
qed

lemma occ_match:
  "prefix placeholder (c # cs) \<Longrightarrow>
   occurrences placeholder (c # cs) = Suc (occurrences placeholder (drop (length placeholder) (c # cs)))"
  using occ_after_match [of "c # cs"] by simp

lemma replace_count:
  "CHR ''$'' \<notin> set i \<Longrightarrow>
   occurrences placeholder s \<le> occurrences (CHR ''#'' # i @ '' '') (replacePlaceholder (CHR ''#'' # i @ '' '') b s)"
proof (induction "CHR ''#'' # i @ '' ''" b s rule: replacePlaceholder.induct)
  case (1 seen)
  then show ?case by (simp add: placeholder_def)
next
  case (2 seen c cs)
  let ?sel = "CHR ''#'' # i @ '' ''"
  let ?rest = "drop (length placeholder) (c # cs)"
  show ?case
  proof (cases "prefix placeholder (c # cs)")
    case True
    have plain: "CHR ''$'' \<notin> set ?sel" using "2.prems" by simp
    have ih: "occurrences placeholder ?rest
        \<le> occurrences ?sel (replacePlaceholder ?sel (seen @ placeholder) ?rest)"
      using "2.hyps"(1) [OF True] "2.prems" by blast
    have "Suc (occurrences ?sel (replacePlaceholder ?sel (seen @ placeholder) ?rest))
        \<le> occurrences ?sel (?sel @ replacePlaceholder ?sel (seen @ placeholder) ?rest)"
      by (rule occ_self_append) simp
    with ih show ?thesis
      unfolding replace_match [OF True plain] occ_match [OF True] by linarith
  next
    case False
    have "occurrences placeholder cs \<le> occurrences ?sel (replacePlaceholder ?sel (seen @ [c]) cs)"
      using "2.hyps"(2) [OF False] "2.prems" by blast
    then show ?thesis using False by simp
  qed
qed

lemma replace_length:
  "CHR ''$'' \<notin> set i \<Longrightarrow>
   length (replacePlaceholder (CHR ''#'' # i @ '' '') b s) + occurrences placeholder s * length placeholder
     = length s + occurrences placeholder s * length (CHR ''#'' # i @ '' '')"
proof (induction "CHR ''#'' # i @ '' ''" b s rule: replacePlaceholder.induct)
  case (1 seen)
  then show ?case by (simp add: placeholder_def)
next
  case (2 seen c cs)
  let ?sel = "CHR ''#'' # i @ '' ''"
  let ?rest = "drop (length placeholder) (c # cs)"
  show ?case
  proof (cases "prefix placeholder (c # cs)")
    case True
    have plain: "CHR ''$'' \<notin> set ?sel" using "2.prems" by simp
    have ih: "length (replacePlaceholder ?sel (seen @ placeholder) ?rest)
          + occurrences placeholder ?rest * length placeholder
        = length ?rest + occurrences placeholder ?rest * length ?sel"
      using "2.hyps"(1) [OF True] "2.prems" by blast
    have "length placeholder \<le> length (c # cs)"
      using True by (rule prefix_length_le)
    then have len: "length ?rest + length placeholder = length (c # cs)"
      by (simp del: drop_Suc_Cons)
    have "length (?sel @ replacePlaceholder ?sel (seen @ placeholder) ?rest)
            + Suc (occurrences placeholder ?rest) * length placeholder
        = (length (replacePlaceholder ?sel (seen @ placeholder) ?rest)
            + occurrences placeholder ?rest * length placeholder) + length ?sel + length placeholder"
      by simp
    also have "\<dots> = (length ?rest + length placeholder)
                     + Suc (occurrences placeholder ?rest) * length ?sel"
      unfolding ih by simp
    finally show ?thesis
      unfolding replace_match [OF True plain] occ_match [OF True] len .
  next
    case False
    have "length (replacePlaceholder ?sel (seen @ [c]) cs) + occurrences placeholder cs * length placeholder
        = length cs + occurrences placeholder cs * length ?sel"
      using "2.hyps"(2) [OF False] "2.prems" by blast
    then show ?thesis using False by simp
  qed
qed

text \<open>
  Claim C9, as amended. For an identifier without a dollar sign (so that the template
  \<open>#id\<close> plus space stands for itself) and a style text that contains the placeholder
  \<open>n\<close> times, the processed text contains no placeholder, contains the container-scoped
  selector at least \<open>n\<close> times, and is the style text with exactly \<open>n\<close> placeholders
  exchanged for selectors: its length is that of the style text, less \<open>n\<close> placeholders,
  plus \<open>n\<close> selectors.
\<close>

theorem processFullscreenStyle_substitutes:
  assumes "CHR ''$'' \<notin> set blockId"
  shows "occurrences placeholder (processFullscreenStyle style blockId) = 0
       \<and> occurrences placeholder style
           \<le> occurrences (scopedSelector blockId) (processFullscreenStyle style blockId)
       \<and> length (processFullscreenStyle style blockId)
             + occurrences placeholder style * length placeholder
           = length style + occurrences placeholder style * length (scopedSelector blockId)"
  using replace_no_placeholder [OF assms, of "[]" style] replace_count [OF assms, of style "[]"]
    replace_length [OF assms, of "[]" style]
  by (simp add: processFullscreenStyle_def scopedSelector_def)

theorem processFullscreenStyle_substitutes_witness:
  "CHR ''$'' \<notin> set ''A''
   \<and> occurrences placeholder (processFullscreenStyle ''${blockId}.x { } ${blockId}.y { }'' ''A'') = 0
   \<and> occurrences placeholder ''${blockId}.x { } ${blockId}.y { }''
       \<le> occurrences (scopedSelector ''A'') (processFullscreenStyle ''${blockId}.x { } ${blockId}.y { }'' ''A'')"
proof -
  have h: "CHR ''$'' \<notin> set ''A''" by simp
  from processFullscreenStyle_substitutes [OF h, of "''${blockId}.x { } ${blockId}.y { }''"] h
  show ?thesis by blast
qed

text \<open>
  Claim C9 as the specification states it fails twice. A style text that already holds
  the selector next to its one placeholder gives two selectors, not one; and for the
  identifier \<open>$&\<close> the template expands to the matched text, so the placeholder
  is still there after the substitution.
\<close>

theorem processFullscreenStyle_counterexample:
  "occurrences placeholder ''#a ${blockId}.x { }'' = 1
   \<and> occurrences (scopedSelector ''a'') (processFullscreenStyle ''#a ${blockId}.x { }'' ''a'') = 2
   \<and> occurrences placeholder ''${blockId}'' = 1
   \<and> occurrences placeholder (processFullscreenStyle ''${blockId}'' ''$&'') = 1"
  by (simp add: processFullscreenStyle_def scopedSelector_def placeholder_def)

subsection \<open>Assigning a style changes one property of one element\<close>

lemma withStyle_sel [simp]:
  "childElements (withStyle a v e) = childElements e"
  "elemId (withStyle a v e) = elemId e"
  "usedDisplay (withStyle a v e) = usedDisplay e"
  "inlineStyle (withStyle a v e) = (inlineStyle e)(a := v)"
  by (cases e; simp)+

lemma nodeInfo_withStyle:
  "nodeInfo (withStyle a v e) = (elemId e, (inlineStyle e)(a := v), usedDisplay e, length (childElements e))"
  by (cases e) (simp add: nodeInfo_def)

lemma descend_withStyle_Cons: "descend (withStyle a v e) (i # q) = descend e (i # q)"
  by simp

lemma descend_modifyAt:
  "map_option nodeInfo (descend (modifyAt (withStyle a v) p e) q) =
     (if q = p then map_option (\<lambda>x. nodeInfo (withStyle a v x)) (descend e q)
      else map_option nodeInfo (descend e q))"
proof (induction p arbitrary: q e)
  case Nil
  then show ?case by (cases q) simp_all
next
  case (Cons i p)
  obtain n s c ks where e: "e = Element n s c ks" by (cases e)
  show ?case
  proof (cases "i < length ks")
    case False
    then show ?thesis using e by auto
  next
    case True
    show ?thesis
    proof (cases q)
      case Nil
      then show ?thesis using e True by (simp add: nodeInfo_def)
    next
      case (Cons j q')
      show ?thesis
      proof (cases "j = i")
        case True
        with Cons e \<open>i < length ks\<close> Cons.IH [of "ks ! i" q'] show ?thesis by simp
      next
        case False
        with Cons e \<open>i < length ks\<close> show ?thesis by simp
      qed
    qed
  qed
qed

lemma lookup_setStyle:
  "map_option nodeInfo (lookupEl (setStyle r a v w) r') =
     (if r' = r then map_option (\<lambda>x. nodeInfo (withStyle a v x)) (lookupEl w r)
      else map_option nodeInfo (lookupEl w r'))"
proof (cases r; cases r')
  fix t p t' p'
  assume r: "r = (t, p)" and r': "r' = (t', p')"
  show ?thesis
  proof (cases t)
    case Body
    then show ?thesis using r r' descend_modifyAt [of a v "rev p" "documentBody w" "rev p'"]
      by (cases t') (auto simp: lookupEl_def setStyle_def)
  next
    case (Loose k)
    show ?thesis
    proof (cases t')
      case Body
      then show ?thesis using r r' Loose by (auto simp: lookupEl_def setStyle_def)
    next
      case (Loose k')
      then show ?thesis using r r' \<open>t = Loose k\<close>
          descend_modifyAt [of a v "rev p" "detached w ! k" "rev p'"]
        by (auto simp: lookupEl_def setStyle_def nth_list_update)
    qed
  qed
qed

lemma info_setStyle:
  "info (setStyle r a v w) r' =
     (if r' = r then map_option (\<lambda>(n, s, c, k). (n, s(a := v), c, k)) (info w r) else info w r')"
  unfolding info_def lookup_setStyle
  by (auto simp: nodeInfo_withStyle nodeInfo_def option.map_comp comp_def)

lemma isElement_info: "isElement w r = (info w r \<noteq> None)"
  by (simp add: isElement_def info_def)

lemma elementId_info: "elementId w r = (case info w r of None \<Rightarrow> [] | Some x \<Rightarrow> fst x)"
  by (simp add: elementId_def info_def nodeInfo_def split: option.splits)

lemma getStyle_info: "getStyle w r p = (case info w r of None \<Rightarrow> [] | Some x \<Rightarrow> fst (snd x) p)"
  by (simp add: getStyle_def info_def nodeInfo_def split: option.splits)

lemma computedDisplay_info:
  "computedDisplay w r = (case info w r of None \<Rightarrow> []
     | Some x \<Rightarrow> fst (snd (snd x)) (fst (snd x) Display))"
  by (simp add: computedDisplay_def info_def nodeInfo_def split: option.splits)

lemma childrenOf_info:
  "childrenOf w r = (case info w r of None \<Rightarrow> []
     | Some x \<Rightarrow> map (\<lambda>i. (fst r, i # snd r)) [0..<snd (snd (snd x))])"
  by (simp add: childrenOf_def info_def nodeInfo_def split: option.splits)

lemma isElement_setStyle [simp]: "isElement (setStyle r a v w) r' = isElement w r'"
  by (auto simp: isElement_info info_setStyle)

lemma elementId_setStyle [simp]: "elementId (setStyle r a v w) r' = elementId w r'"
  by (auto simp: elementId_info info_setStyle split: option.splits)

lemma childrenOf_setStyle [simp]: "childrenOf (setStyle r a v w) r' = childrenOf w r'"
  by (auto simp: childrenOf_info info_setStyle split: option.splits)

lemma getStyle_setStyle:
  "getStyle (setStyle r a v w) r' b =
     (if r' = r \<and> b = a \<and> isElement w r then v else getStyle w r' b)"
  by (auto simp: getStyle_info isElement_info info_setStyle split: option.splits)

lemma computedDisplay_setStyle_other:
  "r' \<noteq> r \<or> a \<noteq> Display \<Longrightarrow> computedDisplay (setStyle r a v w) r' = computedDisplay w r'"
  by (auto simp: computedDisplay_info info_setStyle split: option.splits)

lemma fields_setStyle [simp]:
  "headStyles (setStyle r a v w) = headStyles w"
  "styleNodesCreated (setStyle r a v w) = styleNodesCreated w"
  "elementStates (setStyle r a v w) = elementStates w"
  "fullscreenStyleElement (setStyle r a v w) = fullscreenStyleElement w"
  "cleanupTimer (setStyle r a v w) = cleanupTimer w"
  "console (setStyle r a v w) = console w"
  by (cases r; cases "fst r"; simp add: setStyle_def)+

subsection \<open>The siblings that entering suppresses\<close>

lemma hideAll_Nil [simp]: "hideAll [] w = w"
  by (simp add: hideAll_def)

lemma hideAll_Cons [simp]: "hideAll (s # ts) w = hideAll ts (setStyle s Display ''none'' w)"
  by (simp add: hideAll_def)

lemma hideAll_append: "hideAll (xs @ ys) w = hideAll ys (hideAll xs w)"
  by (simp add: hideAll_def)

lemma hideAll_frame [simp]:
  "isElement (hideAll ts w) r = isElement w r"
  "elementId (hideAll ts w) r = elementId w r"
  "childrenOf (hideAll ts w) r = childrenOf w r"
  "headStyles (hideAll ts w) = headStyles w"
  "styleNodesCreated (hideAll ts w) = styleNodesCreated w"
  "elementStates (hideAll ts w) = elementStates w"
  "fullscreenStyleElement (hideAll ts w) = fullscreenStyleElement w"
  "cleanupTimer (hideAll ts w) = cleanupTimer w"
  "console (hideAll ts w) = console w"
  by (induction ts arbitrary: w; simp)+

lemma getStyle_hideAll:
  "getStyle (hideAll ts w) r b =
     (if r \<in> set ts \<and> b = Display \<and> isElement w r then ''none'' else getStyle w r b)"
  by (induction ts arbitrary: w) (auto simp: getStyle_setStyle)

lemma computedDisplay_hideAll_other:
  "r \<notin> set ts \<Longrightarrow> computedDisplay (hideAll ts w) r = computedDisplay w r"
  by (induction ts arbitrary: w) (auto simp: computedDisplay_setStyle_other)

lemma hideTargets_hideAll [simp]: "hideTargets (hideAll ts w) t p = hideTargets w t p"
  by (induction p) simp_all

lemma hideSibling_unrelated:
  "hideSibling current sibling (hidden, w) =
     (if unrelated current sibling
      then (hidden @ [(sibling, computedDisplay w sibling)], setStyle sibling Display ''none'' w)
      else (hidden, w))"
  by (simp add: hideSibling_def unrelated_def)

lemma hide_level:
  "distinct cs \<Longrightarrow>
   foldl (\<lambda>a sibling. hideSibling current sibling a) (hidden, w) cs =
     (hidden @ map (\<lambda>s. (s, computedDisplay w s)) (filter (unrelated current) cs),
      hideAll (filter (unrelated current) cs) w)"
proof (induction cs arbitrary: hidden w)
  case Nil
  then show ?case by simp
next
  case (Cons c cs)
  show ?case
  proof (cases "unrelated current c")
    case False
    then show ?thesis using Cons by (simp add: hideSibling_unrelated)
  next
    case True
    let ?w = "setStyle c Display ''none'' w"
    have "map (\<lambda>s. (s, computedDisplay ?w s)) (filter (unrelated current) cs)
        = map (\<lambda>s. (s, computedDisplay w s)) (filter (unrelated current) cs)"
    proof (intro map_cong refl)
      fix s assume "s \<in> set (filter (unrelated current) cs)"
      with Cons.prems have "s \<noteq> c" by auto
      then show "(s, computedDisplay ?w s) = (s, computedDisplay w s)"
        by (simp add: computedDisplay_setStyle_other)
    qed
    then show ?thesis using True Cons by (simp add: hideSibling_unrelated)
  qed
qed

lemma distinct_childrenOf: "distinct (childrenOf w r)"
  by (auto simp: childrenOf_def distinct_map inj_on_def split: option.splits)

lemma childrenOf_shape: "s \<in> set (childrenOf w (t, p)) \<Longrightarrow> \<exists>k. s = (t, k # p)"
  by (auto simp: childrenOf_def split: option.splits)

lemma descend_snoc:
  "descend e (p @ [i]) =
     (case descend e p of None \<Rightarrow> None
      | Some x \<Rightarrow> if i < length (childElements x) then Some (childElements x ! i) else None)"
  by (induction p arbitrary: e) (auto split: option.splits)

lemma childrenOf_isElement:
  assumes "s \<in> set (childrenOf w r)"
  shows "isElement w s"
proof (cases "lookupEl w r")
  case None
  with assms show ?thesis by (simp add: childrenOf_def)
next
  case (Some e)
  with assms obtain i where i: "i < length (childElements e)" and s: "s = (fst r, i # snd r)"
    by (auto simp: childrenOf_def)
  from Some obtain x where x: "rootElement w (fst r) = Some x" and d: "descend x (rev (snd r)) = Some e"
    by (auto simp: lookupEl_def split: option.splits)
  show ?thesis using i s x d by (simp add: isElement_def lookupEl_def descend_snoc)
qed

lemma hideTargets_shape:
  "s \<in> set (hideTargets w t p) \<Longrightarrow> fst s = t \<and> length (snd s) \<le> length p \<and> isElement w s"
proof (induction p)
  case Nil
  then show ?case by simp
next
  case (Cons i p)
  then show ?case
    by (auto dest: childrenOf_shape childrenOf_isElement)
qed

lemma hideTargets_not_ancestor:
  "s \<in> set (hideTargets w t p) \<Longrightarrow> \<not> suffix (snd s) p"
proof (induction p)
  case Nil
  then show ?case by simp
next
  case (Cons i p)
  from Cons.prems consider
      (level) "s \<in> set (childrenOf w (t, p))" "unrelated (t, i # p) s"
    | (above) "s \<in> set (hideTargets w t p)"
    by auto
  then show ?case
  proof cases
    case level
    then obtain k where s: "s = (t, k # p)" by (auto dest: childrenOf_shape)
    with level(2) have "k \<noteq> i" by (simp add: unrelated_def)
    then show ?thesis using s by (auto simp: suffix_Cons dest: suffix_length_le)
  next
    case above
    then have "\<not> suffix (snd s) p" and "length (snd s) \<le> length p"
      using Cons.IH hideTargets_shape by blast+
    then show ?thesis by (auto simp: suffix_Cons)
  qed
qed

lemma distinct_hideTargets: "distinct (hideTargets w t p)"
proof (induction p)
  case Nil
  then show ?case by simp
next
  case (Cons i p)
  have "s \<notin> set (hideTargets w t p)" if "s \<in> set (childrenOf w (t, p))" for s
  proof
    assume "s \<in> set (hideTargets w t p)"
    then have "length (snd s) \<le> length p" by (simp add: hideTargets_shape)
    with that show False by (auto dest!: childrenOf_shape)
  qed
  then have "set (filter (unrelated (t, i # p)) (childrenOf w (t, p))) \<inter> set (hideTargets w t p) = {}"
    by auto
  then show ?case using Cons by (simp add: distinct_childrenOf)
qed

lemma element_not_hidden: "(t, p) \<notin> set (hideTargets w t p)"
  using hideTargets_not_ancestor [of "(t, p)" w t p] by auto

lemma hideSiblingsLoop_eq:
  "hideSiblingsLoop (Some (t, p)) (hidden, w) =
     (hidden @ map (\<lambda>s. (s, computedDisplay w s)) (hideTargets w t p), hideAll (hideTargets w t p) w)"
proof (induction p arbitrary: hidden w)
  case Nil
  then show ?case by simp
next
  case (Cons i p)
  let ?level = "filter (unrelated (t, i # p)) (childrenOf w (t, p))"
  let ?w = "hideAll ?level w"
  have "map (\<lambda>s. (s, computedDisplay ?w s)) (hideTargets w t p)
      = map (\<lambda>s. (s, computedDisplay w s)) (hideTargets w t p)"
  proof (intro map_cong refl)
    fix s assume "s \<in> set (hideTargets w t p)"
    then have "length (snd s) \<le> length p" by (simp add: hideTargets_shape)
    then have "s \<notin> set ?level" by (auto dest!: childrenOf_shape)
    then show "(s, computedDisplay ?w s) = (s, computedDisplay w s)"
      by (simp add: computedDisplay_hideAll_other)
  qed
  then show ?case
    using Cons.IH [of "hidden @ map (\<lambda>s. (s, computedDisplay w s)) ?level" ?w]
    by (simp add: documentBodyRef_def hide_level distinct_childrenOf hideAll_append)
qed

subsection \<open>The manager's fields and the document are separate\<close>

lemma rootElement_fields [simp]:
  "rootElement (w\<lparr>headStyles := a\<rparr>) t = rootElement w t"
  "rootElement (w\<lparr>styleNodesCreated := b\<rparr>) t = rootElement w t"
  "rootElement (w\<lparr>elementStates := c\<rparr>) t = rootElement w t"
  "rootElement (w\<lparr>fullscreenStyleElement := d\<rparr>) t = rootElement w t"
  "rootElement (w\<lparr>cleanupTimer := e\<rparr>) t = rootElement w t"
  "rootElement (w\<lparr>console := f\<rparr>) t = rootElement w t"
  by (cases t; simp)+

lemma lookupEl_fields [simp]:
  "lookupEl (w\<lparr>headStyles := a\<rparr>) = lookupEl w"
  "lookupEl (w\<lparr>styleNodesCreated := b\<rparr>) = lookupEl w"
  "lookupEl (w\<lparr>elementStates := c\<rparr>) = lookupEl w"
  "lookupEl (w\<lparr>fullscreenStyleElement := d\<rparr>) = lookupEl w"
  "lookupEl (w\<lparr>cleanupTimer := e\<rparr>) = lookupEl w"
  "lookupEl (w\<lparr>console := f\<rparr>) = lookupEl w"
  by (simp_all add: lookupEl_def fun_eq_iff)

lemma isElement_fields [simp]:
  "isElement (w\<lparr>headStyles := a\<rparr>) = isElement w"
  "isElement (w\<lparr>styleNodesCreated := b\<rparr>) = isElement w"
  "isElement (w\<lparr>elementStates := c\<rparr>) = isElement w"
  "isElement (w\<lparr>fullscreenStyleElement := d\<rparr>) = isElement w"
  "isElement (w\<lparr>cleanupTimer := e\<rparr>) = isElement w"
  "isElement (w\<lparr>console := f\<rparr>) = isElement w"
  by (simp_all add: isElement_def fun_eq_iff)

lemma elementId_fields [simp]:
  "elementId (w\<lparr>headStyles := a\<rparr>) = elementId w"
  "elementId (w\<lparr>styleNodesCreated := b\<rparr>) = elementId w"
  "elementId (w\<lparr>elementStates := c\<rparr>) = elementId w"
  "elementId (w\<lparr>fullscreenStyleElement := d\<rparr>) = elementId w"
  "elementId (w\<lparr>cleanupTimer := e\<rparr>) = elementId w"
  "elementId (w\<lparr>console := f\<rparr>) = elementId w"
  by (simp_all add: elementId_def fun_eq_iff)

lemma getStyle_fields [simp]:
  "getStyle (w\<lparr>headStyles := a\<rparr>) = getStyle w"
  "getStyle (w\<lparr>styleNodesCreated := b\<rparr>) = getStyle w"
  "getStyle (w\<lparr>elementStates := c\<rparr>) = getStyle w"
  "getStyle (w\<lparr>fullscreenStyleElement := d\<rparr>) = getStyle w"
  "getStyle (w\<lparr>cleanupTimer := e\<rparr>) = getStyle w"
  "getStyle (w\<lparr>console := f\<rparr>) = getStyle w"
  by (simp_all add: getStyle_def fun_eq_iff)

lemma computedDisplay_fields [simp]:
  "computedDisplay (w\<lparr>headStyles := a\<rparr>) = computedDisplay w"
  "computedDisplay (w\<lparr>styleNodesCreated := b\<rparr>) = computedDisplay w"
  "computedDisplay (w\<lparr>elementStates := c\<rparr>) = computedDisplay w"
  "computedDisplay (w\<lparr>fullscreenStyleElement := d\<rparr>) = computedDisplay w"
  "computedDisplay (w\<lparr>cleanupTimer := e\<rparr>) = computedDisplay w"
  "computedDisplay (w\<lparr>console := f\<rparr>) = computedDisplay w"
  by (simp_all add: computedDisplay_def fun_eq_iff)

subsection \<open>Loops of style assignments\<close>

lemma applyStyles_Nil [simp]: "applyStyles e [] w = w"
  by (simp add: applyStyles_def)

lemma applyStyles_snoc [simp]:
  "applyStyles e (kvs @ [kv]) w = setStyle e (fst kv) (snd kv) (applyStyles e kvs w)"
  by (simp add: applyStyles_def case_prod_beta)

lemma applyStyles_frame [simp]:
  "isElement (applyStyles e kvs w) r = isElement w r"
  "elementId (applyStyles e kvs w) r = elementId w r"
  "headStyles (applyStyles e kvs w) = headStyles w"
  "styleNodesCreated (applyStyles e kvs w) = styleNodesCreated w"
  "elementStates (applyStyles e kvs w) = elementStates w"
  "fullscreenStyleElement (applyStyles e kvs w) = fullscreenStyleElement w"
  "cleanupTimer (applyStyles e kvs w) = cleanupTimer w"
  "console (applyStyles e kvs w) = console w"
  by (induction kvs rule: rev_induct; simp)+

lemma getStyle_applyStyles:
  "getStyle (applyStyles e kvs w) r b =
     (if r = e \<and> isElement w e
      then (case map_of (rev kvs) b of None \<Rightarrow> getStyle w e b | Some v \<Rightarrow> v)
      else getStyle w r b)"
proof (induction kvs rule: rev_induct)
  case Nil
  then show ?case by simp
next
  case (snoc kv kvs)
  show ?case
    using snoc.IH by (auto simp: getStyle_setStyle)
qed

lemma restoreHidden_Nil [simp]: "restoreHidden [] w = w"
  by (simp add: restoreHidden_def)

lemma restoreHidden_snoc [simp]:
  "restoreHidden (hs @ [entry]) w =
     (if isElement (restoreHidden hs w) (fst entry)
      then setStyle (fst entry) Display (snd entry) (restoreHidden hs w) else restoreHidden hs w)"
  by (simp add: restoreHidden_def case_prod_beta)

lemma restoreHidden_frame [simp]:
  "isElement (restoreHidden hs w) r = isElement w r"
  "elementId (restoreHidden hs w) r = elementId w r"
  "headStyles (restoreHidden hs w) = headStyles w"
  "styleNodesCreated (restoreHidden hs w) = styleNodesCreated w"
  "elementStates (restoreHidden hs w) = elementStates w"
  "fullscreenStyleElement (restoreHidden hs w) = fullscreenStyleElement w"
  "cleanupTimer (restoreHidden hs w) = cleanupTimer w"
  "console (restoreHidden hs w) = console w"
  by (induction hs rule: rev_induct; simp)+

lemma getStyle_restoreHidden:
  "getStyle (restoreHidden hs w) r b =
     (if b = Display \<and> isElement w r
      then (case map_of (rev hs) r of None \<Rightarrow> getStyle w r b | Some d \<Rightarrow> d)
      else getStyle w r b)"
proof (induction hs rule: rev_induct)
  case Nil
  then show ?case by simp
next
  case (snoc entry hs)
  show ?case
    using snoc.IH by (auto simp: getStyle_setStyle)
qed

subsection \<open>Saving and restoring in closed form\<close>

lemma applyStyles_append: "applyStyles e (xs @ ys) w = applyStyles e ys (applyStyles e xs w)"
  by (simp add: applyStyles_def)

lemma clear_applyStyles:
  "foldl (\<lambda>w prop. setStyle e prop [] w) w ps = applyStyles e (map (\<lambda>p. (p, [])) ps) w"
  by (induction ps rule: rev_induct) simp_all

lemma definedStyles_snoc:
  "definedStyles (os @ [(p, v)]) = definedStyles os @ (case v of None \<Rightarrow> [] | Some x \<Rightarrow> [(p, x)])"
  by (simp add: definedStyles_def)

lemma saved_applyStyles:
  "foldl (\<lambda>w (prop, val). case val of None \<Rightarrow> w | Some v \<Rightarrow> setStyle e prop v w) w os
     = applyStyles e (definedStyles os) w"
proof (induction os rule: rev_induct)
  case Nil
  then show ?case by (simp add: definedStyles_def)
next
  case (snoc x os)
  obtain p v where x: "x = (p, v)" by (cases x)
  show ?case unfolding x
    by (cases v) (simp_all add: snoc.IH definedStyles_snoc)
qed

lemma restoreElementState_eq:
  "restoreElementState e st w =
     restoreHidden (hiddenElements st)
       (applyStyles e (map (\<lambda>p. (p, [])) STYLES_TO_SAVE @ definedStyles (originalStyles st)) w)"
  by (simp add: restoreElementState_def clear_applyStyles saved_applyStyles applyStyles_append
        restoreHidden_def)

lemma restoreElementState_frame [simp]:
  "isElement (restoreElementState e st w) r = isElement w r"
  "elementId (restoreElementState e st w) r = elementId w r"
  "headStyles (restoreElementState e st w) = headStyles w"
  "styleNodesCreated (restoreElementState e st w) = styleNodesCreated w"
  "elementStates (restoreElementState e st w) = elementStates w"
  "fullscreenStyleElement (restoreElementState e st w) = fullscreenStyleElement w"
  "cleanupTimer (restoreElementState e st w) = cleanupTimer w"
  "console (restoreElementState e st w) = console w"
  by (simp_all add: restoreElementState_eq)

lemma saveElementState_eq:
  "saveElementState e w = (savedState e w, hideAll (hideTargets w (fst e) (snd e)) w)"
  by (cases e) (simp add: saveElementState_def savedState_def hideSiblingsLoop_eq del: hideSiblingsLoop.simps)

lemma definedStyles_saved: "definedStyles (map (\<lambda>p. (p, Some (g p))) ps) = map (\<lambda>p. (p, g p)) ps"
  by (induction ps) (simp_all add: definedStyles_def)

lemma map_of_rev_table:
  "map_of (rev (map (\<lambda>p. (p, g p)) ps)) b = (if b \<in> set ps then Some (g b) else None)"
  by (induction ps) (auto simp: map_add_def split: option.splits)

lemma all_props: "b \<in> set STYLES_TO_SAVE"
  by (cases b) (simp_all add: STYLES_TO_SAVE_def FULLSCREEN_STYLES_def)

lemma fullscreen_total: "map_of (rev FULLSCREEN_STYLES) b = map_of FULLSCREEN_STYLES b"
  by (cases b) (simp_all add: FULLSCREEN_STYLES_def)

lemma fullscreen_defined: "map_of FULLSCREEN_STYLES b \<noteq> None"
  by (cases b) (simp_all add: FULLSCREEN_STYLES_def)

lemma removeAddedStyle_frame [simp]:
  "lookupEl (removeAddedStyle h w) = lookupEl w"
  "styleNodesCreated (removeAddedStyle h w) = styleNodesCreated w"
  "elementStates (removeAddedStyle h w) = elementStates w"
  "fullscreenStyleElement (removeAddedStyle h w) = fullscreenStyleElement w"
  "cleanupTimer (removeAddedStyle h w) = cleanupTimer w"
  "console (removeAddedStyle h w) = console w"
  by (simp_all add: removeAddedStyle_def split: option.splits)

lemma removeAddedStyle_getters [simp]:
  "isElement (removeAddedStyle h w) = isElement w"
  "elementId (removeAddedStyle h w) = elementId w"
  "getStyle (removeAddedStyle h w) = getStyle w"
  "computedDisplay (removeAddedStyle h w) = computedDisplay w"
  by (simp_all add: isElement_def elementId_def getStyle_def computedDisplay_def
        fun_eq_iff)

subsection \<open>Entering and leaving in closed form\<close>

lemma toggle_enter: "toggleFullscreen (Some e) True sty w = Inr (entered e sty w)"
  by (simp add: toggleFullscreen_def toggleFullscreenTry_def saveElementState_eq entered_def
        addScopedStyle_def Let_def applyStyles_def [symmetric])

lemma toggle_exit:
  "map_of (elementStates w) (elementId w e) = Some st \<Longrightarrow>
   toggleFullscreen (Some e) False sty w = Inr (exited e st w)"
  by (simp add: toggleFullscreen_def toggleFullscreenTry_def exited_def Let_def split: option.splits)

lemma toggle_exit_none:
  "map_of (elementStates w) (elementId w e) = None \<Longrightarrow>
   toggleFullscreen (Some e) False sty w =
     Inr (w\<lparr>console := console w @ [ConsoleWarn (''No saved state found for element '' @ elementId w e)]\<rparr>)"
  by (simp add: toggleFullscreen_def toggleFullscreenTry_def)

lemma entered_frame [simp]:
  "isElement (entered e sty w) r = isElement w r"
  "elementId (entered e sty w) r = elementId w r"
  "elementStates (entered e sty w) = AList.update (elementId w e) (savedState e w) (elementStates w)"
  "cleanupTimer (entered e sty w) = cleanupTimer w"
  "console (entered e sty w) = console w"
  by (simp_all add: entered_def Let_def)

lemma entered_styles [simp]:
  "headStyles (entered e sty w) =
     (if sty \<noteq> [] then headStyles w @ [(styleNodesCreated w, processFullscreenStyle sty (elementId w e))]
      else headStyles w)"
  "styleNodesCreated (entered e sty w) =
     (if sty \<noteq> [] then Suc (styleNodesCreated w) else styleNodesCreated w)"
  "fullscreenStyleElement (entered e sty w) =
     (if sty \<noteq> [] then Some (styleNodesCreated w) else fullscreenStyleElement w)"
  by (simp_all add: entered_def Let_def)

lemma getStyle_entered:
  "getStyle (entered e sty w) r b =
     (if r = e \<and> isElement w e then the (map_of FULLSCREEN_STYLES b)
      else if r \<in> set (hideTargets w (fst e) (snd e)) \<and> b = Display \<and> isElement w r then ''none''
      else getStyle w r b)"
  using fullscreen_defined [of b]
  by (auto simp: entered_def Let_def getStyle_applyStyles getStyle_hideAll fullscreen_total
        split: option.splits)

lemma exited_frame [simp]:
  "isElement (exited e st w) r = isElement w r"
  "elementId (exited e st w) r = elementId w r"
  "elementStates (exited e st w) = AList.delete (elementId w e) (elementStates w)"
  "cleanupTimer (exited e st w) = cleanupTimer w"
  "console (exited e st w) = console w"
  "styleNodesCreated (exited e st w) = styleNodesCreated w"
  "fullscreenStyleElement (exited e st w) = None"
  by (simp_all add: exited_def Let_def split: option.splits)

lemma filter_absent: "h \<notin> fst ` set xs \<Longrightarrow> filter (\<lambda>b. fst b \<noteq> h) xs = xs"
  by (induction xs) auto

lemma headStyles_exited [simp]:
  "headStyles (exited e st w) =
     (case fullscreenStyleElement w of None \<Rightarrow> headStyles w
      | Some h \<Rightarrow> filter (\<lambda>b. fst b \<noteq> h) (headStyles w))"
  by (auto simp: exited_def Let_def removeAddedStyle_def filter_absent split: option.splits)

lemma getStyle_exited: "getStyle (exited e st w) r b = getStyle (restoreElementState e st w) r b"
  by (simp add: exited_def Let_def split: option.splits)

lemma getStyle_restore_saved:
  "getStyle (restoreElementState e (savedState e0 w0) w1) r b =
     (if b = Display \<and> isElement w1 r \<and> r \<in> set (hideTargets w0 (fst e0) (snd e0))
      then computedDisplay w0 r
      else if r = e \<and> isElement w1 e then getStyle w0 e0 b
      else getStyle w1 r b)"
proof -
  have hidden: "map_of (rev (hiddenElements (savedState e0 w0))) r =
      (if r \<in> set (hideTargets w0 (fst e0) (snd e0)) then Some (computedDisplay w0 r) else None)"
    by (simp add: savedState_def rev_map [symmetric] map_of_rev_table)
  have saved: "map_of (rev (map (\<lambda>p. (p, [])) STYLES_TO_SAVE
                  @ definedStyles (originalStyles (savedState e0 w0)))) b = Some (getStyle w0 e0 b)"
    using all_props [of b]
    by (simp add: savedState_def definedStyles_saved rev_map [symmetric] map_of_rev_table
          map_add_def)
  show ?thesis
    unfolding restoreElementState_eq getStyle_restoreHidden getStyle_applyStyles hidden saved
    by auto
qed

subsection \<open>The session that entering stores\<close>

lemma hiddenElements_savedState:
  "map fst (hiddenElements (savedState e w)) = hideTargets w (fst e) (snd e)"
  by (simp add: savedState_def comp_def)

lemma session_after_enter:
  "map_of (elementStates (entered e sty w)) (elementId w e) = Some (savedState e w)"
  by (simp add: update_conv')

subsection \<open>Sessions and the store\<close>

lemma filter_update_key:
  "distinct (map fst al) \<Longrightarrow> filter (\<lambda>entry. fst entry = k) (AList.update k v al) = [(k, v)]"
proof (induction al)
  case Nil
  then show ?case by simp
next
  case (Cons x al)
  have "filter (\<lambda>entry. fst entry = k) al = []" if "fst x = k"
  proof -
    have "fst x \<notin> set (map fst al)" using Cons.prems by simp
    then have "\<forall>y\<in>set al. fst y \<noteq> k" using that by (metis image_eqI set_map)
    then show ?thesis by (simp add: filter_empty_conv)
  qed
  then show ?case using Cons by (cases x) auto
qed

lemma distinct_hidden: "distinct (map fst (hiddenElements (savedState e w)))"
  by (simp add: hiddenElements_savedState distinct_hideTargets)

text \<open>
  Claim C4. \<open>toggleFullscreen(C, true)\<close> twice, with the default (empty) style text:
  the store holds exactly one entry under the container's id and its keys stay
  distinct, the session lists no sibling twice, the container's inline style after the
  second call is the one after the first, and no style element has been added or
  recorded.
\<close>

theorem reenter_single_session:
  assumes "distinct (map fst (elementStates w))"
  shows "\<exists>w1 w2 st.
      toggleFullscreen (Some element) True [] w = Inr w1
    \<and> toggleFullscreen (Some element) True [] w1 = Inr w2
    \<and> filter (\<lambda>entry. fst entry = elementId w element) (elementStates w2)
        = [(elementId w element, st)]
    \<and> distinct (map fst (elementStates w2))
    \<and> distinct (map fst (hiddenElements st))
    \<and> (\<forall>prop. getStyle w2 element prop = getStyle w1 element prop)
    \<and> headStyles w2 = headStyles w
    \<and> fullscreenStyleElement w2 = fullscreenStyleElement w"
proof -
  let ?w1 = "entered element [] w"
  let ?w2 = "entered element [] ?w1"
  let ?st = "savedState element ?w1"
  have d1: "distinct (map fst (elementStates ?w1))"
    using assms by (simp add: distinct_update)
  have one: "filter (\<lambda>entry. fst entry = elementId w element) (elementStates ?w2)
        = [(elementId w element, ?st)]"
    using d1 filter_update_key [of "elementStates ?w1" "elementId w element" ?st] by simp
  have d2: "distinct (map fst (elementStates ?w2))"
    using d1 distinct_update [of "elementStates ?w1" "elementId w element" ?st] by simp
  have same: "\<forall>prop. getStyle ?w2 element prop = getStyle ?w1 element prop"
    using element_not_hidden [of "fst element" "snd element"]
    by (auto simp: getStyle_entered)
  have "headStyles ?w2 = headStyles w" and "fullscreenStyleElement ?w2 = fullscreenStyleElement w"
    by simp_all
  with toggle_enter [of element "[]" w] toggle_enter [of element "[]" ?w1] one d2
    distinct_hidden [of element ?w1] same
  show ?thesis by blast
qed

text \<open>
  Claim C7. \<open>exitFullscreen\<close> twice gives the state (store, document, style elements,
  console) and the outcome of \<open>exitFullscreen\<close> once; for \<open>null\<close> both throw.
\<close>

theorem exit_idempotent:
  "andThen (exitFullscreen elementArg w) (exitFullscreen elementArg) = exitFullscreen elementArg w"
proof (cases elementArg)
  case None
  then show ?thesis by (simp add: andThen_def exitFullscreen_def isElementFullscreen_def)
next
  case (Some e)
  show ?thesis
  proof (cases "map_of (elementStates w) (elementId w e)")
    case None
    then show ?thesis using Some
      by (simp add: andThen_def exitFullscreen_def isElementFullscreen_def)
  next
    case (Some st)
    have "map_of (elementStates (exited e st w)) (elementId (exited e st w) e) = None"
      by (simp add: delete_conv')
    then have "exitFullscreen (Some e) (exited e st w) = Inr (exited e st w)"
      by (simp add: exitFullscreen_def isElementFullscreen_def)
    moreover have "exitFullscreen (Some e) w = Inr (exited e st w)"
      using Some toggle_exit [of w e st "[]"]
      by (simp add: exitFullscreen_def isElementFullscreen_def)
    ultimately show ?thesis using \<open>elementArg = Some e\<close> by (simp add: andThen_def)
  qed
qed

text \<open>
  Claim C8. Without a session under the element's id, \<open>isElementFullscreen\<close> answers
  false and \<open>exitFullscreen\<close> returns the state as it was.
\<close>

theorem never_entered_noop:
  assumes "map_of (elementStates w) (elementId w element) = None"
  shows "isElementFullscreen (Some element) w = Inr False
       \<and> exitFullscreen (Some element) w = Inr w"
  using assms by (simp add: exitFullscreen_def isElementFullscreen_def)

text \<open>
  Claim C10. When \<open>e2\<close> has the id of \<open>e1\<close>, entering \<open>e1\<close> makes
  \<open>isElementFullscreen(e2)\<close> true; the stored session holds the styles of \<open>e1\<close>;
  leaving with \<open>e2\<close> finds that session (no warning is logged), removes it, so that
  \<open>e1\<close> is no longer fullscreen, and writes the saved styles of \<open>e1\<close> onto \<open>e2\<close>
  (\<open>display\<close> apart, which the restoring of siblings may set again).
\<close>

theorem sessions_keyed_by_id:
  assumes "elementId w e1 = elementId w e2" and "isElement w e2"
  shows "\<exists>w1 st w2.
      toggleFullscreen (Some e1) True fullscreenStyle w = Inr w1
    \<and> isElementFullscreen (Some e2) w1 = Inr True
    \<and> map_of (elementStates w1) (elementId w e1) = Some st
    \<and> originalStyles st = map (\<lambda>prop. (prop, Some (getStyle w e1 prop))) STYLES_TO_SAVE
    \<and> toggleFullscreen (Some e2) False fullscreenStyle' w1 = Inr w2
    \<and> map_of (elementStates w2) (elementId w e1) = None
    \<and> isElementFullscreen (Some e1) w2 = Inr False
    \<and> console w2 = console w
    \<and> (\<forall>prop. prop \<noteq> Display \<longrightarrow> getStyle w2 e2 prop = getStyle w e1 prop)"
proof -
  let ?w1 = "entered e1 fullscreenStyle w"
  let ?st = "savedState e1 w"
  let ?w2 = "exited e2 ?st ?w1"
  have session: "map_of (elementStates ?w1) (elementId w e1) = Some ?st"
    by (rule session_after_enter)
  then have session2: "map_of (elementStates ?w1) (elementId ?w1 e2) = Some ?st"
    using assms(1) by simp
  have full: "isElementFullscreen (Some e2) ?w1 = Inr True"
    using session2 by (simp add: isElementFullscreen_def)
  have leave: "toggleFullscreen (Some e2) False fullscreenStyle' ?w1 = Inr ?w2"
    using session2 by (rule toggle_exit)
  have gone: "map_of (elementStates ?w2) (elementId w e1) = None"
    using assms(1) by (simp add: delete_conv')
  then have notfull: "isElementFullscreen (Some e1) ?w2 = Inr False"
    by (simp add: isElementFullscreen_def)
  have styles: "\<forall>prop. prop \<noteq> Display \<longrightarrow> getStyle ?w2 e2 prop = getStyle w e1 prop"
    using assms(2) by (simp add: getStyle_exited getStyle_restore_saved)
  have "originalStyles ?st = map (\<lambda>prop. (prop, Some (getStyle w e1 prop))) STYLES_TO_SAVE"
    by (simp add: savedState_def)
  moreover have "console ?w2 = console w" by simp
  ultimately show ?thesis
    using toggle_enter [of e1 fullscreenStyle w] full session leave gone notfull styles by blast
qed

text \<open>
  Claim C6, as amended. Entering with \<open>null\<close> returns normally: the \<open>TypeError\<close> is
  caught and logged, and nothing but the console changes. Entering with an element that
  is not attached to the document is an ordinary enter: a session is stored and the
  fullscreen styles are applied.
\<close>

theorem enter_null_or_detached:
  assumes "isElement w (Loose k, p)"
  shows "toggleFullscreen None True fullscreenStyle w
           = Inr (w\<lparr>console := console w @ [ConsoleError ''Error toggling fullscreen:'']\<rparr>)
       \<and> (\<exists>w1. toggleFullscreen (Some (Loose k, p)) True fullscreenStyle w = Inr w1
             \<and> isElementFullscreen (Some (Loose k, p)) w1 = Inr True
             \<and> (\<forall>prop. getStyle w1 (Loose k, p) prop = the (map_of FULLSCREEN_STYLES prop)))"
proof -
  let ?w1 = "entered (Loose k, p) fullscreenStyle w"
  have "isElementFullscreen (Some (Loose k, p)) ?w1 = Inr True"
    using session_after_enter [of "(Loose k, p)" fullscreenStyle w]
    by (simp add: isElementFullscreen_def del: entered_frame(4))
  moreover have "\<forall>prop. getStyle ?w1 (Loose k, p) prop = the (map_of FULLSCREEN_STYLES prop)"
    using assms by (simp add: getStyle_entered)
  moreover have "toggleFullscreen None True fullscreenStyle w
           = Inr (w\<lparr>console := console w @ [ConsoleError ''Error toggling fullscreen:'']\<rparr>)"
    by (simp add: toggleFullscreen_def toggleFullscreenTry_def)
  ultimately show ?thesis using toggle_enter [of "(Loose k, p)" fullscreenStyle w] by blast
qed

subsection \<open>The example document\<close>

lemmas example_defs = exampleWorld_def exampleBody_def refA_def refB_def refC_def refTwin_def
  refInner_def refD_def

lemma lookup_example:
  "lookupEl exampleWorld refA = Some (Element ''A'' (unstyled(MarginBottom := ''8px'')) (inFlow ''flex'')
             [Element ''inner'' unstyled (inFlow ''block'') []])"
  "lookupEl exampleWorld refB = Some (Element ''B'' unstyled (inFlow ''block'') [])"
  "lookupEl exampleWorld refC = Some (Element ''C'' (unstyled(Display := ''inline'')) (inFlow ''block'') [])"
  "lookupEl exampleWorld refTwin = Some (Element ''A'' unstyled (inFlow ''block'') [])"
  "lookupEl exampleWorld refD = Some (Element ''D'' unstyled outsideDocument [])"
  "lookupEl exampleWorld refInner = Some (Element ''inner'' unstyled (inFlow ''block'') [])"
  by (simp_all add: lookupEl_def example_defs)

lemma example_suppressed: "hideTargets exampleWorld Body [0, 0] = [refB, refC, refTwin]"
  by (simp add: childrenOf_def lookupEl_def unrelated_def containsNode_def suffix_Cons example_defs)

lemma ids_example [simp]:
  "elementId exampleWorld refA = ''A''" "elementId exampleWorld refB = ''B''"
  "elementId exampleWorld refC = ''C''" "elementId exampleWorld refTwin = ''A''"
  "elementId exampleWorld refD = ''D''" "elementId exampleWorld refInner = ''inner''"
  by (simp_all add: elementId_def lookup_example)

lemma isElement_example [simp]:
  "isElement exampleWorld refA" "isElement exampleWorld refB" "isElement exampleWorld refC"
  "isElement exampleWorld refTwin" "isElement exampleWorld refD"
  "isElement exampleWorld refInner"
  by (simp_all add: isElement_def lookup_example)

lemma enteredA_eq: "enteredA = entered refA ''${blockId}.x { }'' exampleWorld"
  by (simp add: enteredA_def toggle_enter)

theorem reenter_single_session_witness:
  "distinct (map fst (elementStates exampleWorld))
   \<and> map fst (filter (\<lambda>entry. fst entry = ''A'') (elementStates enteredTwice)) = [''A'']
   \<and> distinct (map fst (elementStates enteredTwice))
   \<and> getStyle enteredTwice refA Position
       = getStyle (projr (toggleFullscreen (Some refA) True [] exampleWorld)) refA Position
   \<and> headStyles enteredTwice = []"
proof -
  have d: "distinct (map fst (elementStates exampleWorld))"
    by (simp add: exampleWorld_def)
  from reenter_single_session [OF d, of refA]
  obtain w1 w2 st where
        first: "toggleFullscreen (Some refA) True [] exampleWorld = Inr w1"
    and second: "toggleFullscreen (Some refA) True [] w1 = Inr w2"
    and one: "filter (\<lambda>entry. fst entry = elementId exampleWorld refA) (elementStates w2)
        = [(elementId exampleWorld refA, st)]"
    and keys: "distinct (map fst (elementStates w2))"
    and same: "\<forall>prop. getStyle w2 refA prop = getStyle w1 refA prop"
    and blocks: "headStyles w2 = headStyles exampleWorld"
    by blast
  have w2: "enteredTwice = w2" by (simp add: enteredTwice_def first second)
  have "headStyles exampleWorld = []" by (simp add: exampleWorld_def)
  then show ?thesis using d one keys same blocks unfolding w2 first by simp
qed

theorem exit_idempotent_witness:
  "andThen (exitFullscreen (Some refA) enteredA) (exitFullscreen (Some refA))
     = exitFullscreen (Some refA) enteredA
   \<and> isElementFullscreen (Some refA) enteredA = Inr True"
proof -
  have "isElementFullscreen (Some refA) enteredA = Inr True"
    using session_after_enter [of refA "''${blockId}.x { }''" exampleWorld]
    by (simp add: isElementFullscreen_def enteredA_eq del: entered_frame(4))
  then show ?thesis using exit_idempotent [of "Some refA" enteredA] by simp
qed

theorem never_entered_noop_witness:
  "map_of (elementStates exampleWorld) (elementId exampleWorld refA) = None
   \<and> isElementFullscreen (Some refA) exampleWorld = Inr False
   \<and> exitFullscreen (Some refA) exampleWorld = Inr exampleWorld"
proof -
  have h: "map_of (elementStates exampleWorld) (elementId exampleWorld refA) = None"
    by (simp add: exampleWorld_def)
  from never_entered_noop [OF h] h show ?thesis by blast
qed

theorem sessions_keyed_by_id_witness:
  "refA \<noteq> refTwin
   \<and> elementId exampleWorld refA = elementId exampleWorld refTwin
   \<and> isElement exampleWorld refTwin
   \<and> isElementFullscreen (Some refTwin) enteredA = Inr True
   \<and> isElementFullscreen (Some refA) (projr (toggleFullscreen (Some refTwin) False [] enteredA))
       = Inr False
   \<and> getStyle exampleWorld refTwin MarginBottom = []
   \<and> getStyle (projr (toggleFullscreen (Some refTwin) False [] enteredA)) refTwin MarginBottom
       = ''8px''"
proof -
  have ids: "elementId exampleWorld refA = elementId exampleWorld refTwin" by simp
  have el: "isElement exampleWorld refTwin" by simp
  from sessions_keyed_by_id [OF ids el, of "''${blockId}.x { }''" "[]"]
  obtain w1 st w2 where
        enter: "toggleFullscreen (Some refA) True ''${blockId}.x { }'' exampleWorld = Inr w1"
    and full: "isElementFullscreen (Some refTwin) w1 = Inr True"
    and leave: "toggleFullscreen (Some refTwin) False [] w1 = Inr w2"
    and notfull: "isElementFullscreen (Some refA) w2 = Inr False"
    and styles: "\<forall>prop. prop \<noteq> Display \<longrightarrow> getStyle w2 refTwin prop = getStyle exampleWorld refA prop"
    by blast
  have w1: "enteredA = w1" by (simp add: enteredA_def enter)
  have w2: "projr (toggleFullscreen (Some refTwin) False [] enteredA) = w2"
    unfolding w1 leave by simp
  have "getStyle exampleWorld refA MarginBottom = ''8px''"
    and "getStyle exampleWorld refTwin MarginBottom = []"
    by (simp_all add: getStyle_def lookup_example unstyled_def)
  moreover have "refA \<noteq> refTwin" by (simp add: refA_def refTwin_def)
  ultimately show ?thesis using ids el full notfull styles unfolding w2 unfolding w1 by simp
qed

theorem enter_null_or_detached_witness:
  "isElement exampleWorld (Loose 0, [])
   \<and> \<not> isl (toggleFullscreen None True [] exampleWorld)
   \<and> isElementFullscreen (Some (Loose 0, [])) enteredD = Inr True
   \<and> getStyle enteredD (Loose 0, []) Position = ''fixed''"
proof -
  have el: "isElement exampleWorld (Loose 0, [])"
    using isElement_example(5) by (simp add: refD_def)
  from enter_null_or_detached [OF el, of "[]"]
  obtain w1 where
        null: "toggleFullscreen None True [] exampleWorld
           = Inr (exampleWorld\<lparr>console := console exampleWorld @ [ConsoleError ''Error toggling fullscreen:'']\<rparr>)"
    and enter: "toggleFullscreen (Some (Loose 0, [])) True [] exampleWorld = Inr w1"
    and full: "isElementFullscreen (Some (Loose 0, [])) w1 = Inr True"
    and styles: "\<forall>prop. getStyle w1 (Loose 0, []) prop = the (map_of FULLSCREEN_STYLES prop)"
    by blast
  have w1: "enteredD = w1" by (simp add: enteredD_def refD_def enter)
  have "the (map_of FULLSCREEN_STYLES Position) = ''fixed''"
    by (simp add: FULLSCREEN_STYLES_def)
  then show ?thesis using el null full styles unfolding w1 by simp
qed

text \<open>
  Claim C6 as the specification states it fails on the example: with \<open>null\<close> the call
  returns normally instead of surfacing an error, and with the detached element \<open>D\<close>
  it returns normally too, stores a session and changes the element's style.
\<close>

theorem enter_invalid_container_counterexample:
  "toggleFullscreen None True [] exampleWorld
     = Inr (exampleWorld\<lparr>console := [ConsoleError ''Error toggling fullscreen:'']\<rparr>)
   \<and> \<not> isl (toggleFullscreen (Some refD) True [] exampleWorld)
   \<and> elementStates exampleWorld = []
   \<and> map fst (elementStates enteredD) = [''D'']
   \<and> getStyle exampleWorld refD Position = []
   \<and> getStyle enteredD refD Position = ''fixed''"
proof -
  have "toggleFullscreen None True [] exampleWorld
     = Inr (exampleWorld\<lparr>console := [ConsoleError ''Error toggling fullscreen:'']\<rparr>)"
    by (simp add: toggleFullscreen_def toggleFullscreenTry_def exampleWorld_def)
  moreover have d: "enteredD = entered refD [] exampleWorld"
    by (simp add: enteredD_def toggle_enter)
  moreover have empty: "elementStates exampleWorld = []" by (simp add: exampleWorld_def)
  moreover have "getStyle exampleWorld refD Position = []"
    by (simp add: getStyle_def lookup_example unstyled_def)
  moreover have "getStyle enteredD refD Position = ''fixed''"
    unfolding d by (simp add: getStyle_entered FULLSCREEN_STYLES_def)
  moreover have "map fst (elementStates enteredD) = [''D'']"
    unfolding d by (simp add: empty)
  ultimately show ?thesis by (simp add: toggle_enter)
qed

subsection \<open>Lookup by id, cleanup and the sweep\<close>

lemma subtreeRefs_withStyle: "subtreeRefs t p (withStyle a v e) = subtreeRefs t p e"
  by (cases e) simp

lemma childRefsFrom_update:
  "i < length ks \<Longrightarrow> (\<And>p'. subtreeRefs t p' m = subtreeRefs t p' (ks ! i)) \<Longrightarrow>
   childRefsFrom t p j (ks[i := m]) = childRefsFrom t p j ks"
proof (induction ks arbitrary: i j)
  case Nil
  then show ?case by simp
next
  case (Cons k ks)
  then show ?case by (cases i) simp_all
qed

lemma subtreeRefs_modifyAt: "subtreeRefs t p (modifyAt (withStyle a v) q e) = subtreeRefs t p e"
proof (induction q arbitrary: e p)
  case Nil
  then show ?case by (simp add: subtreeRefs_withStyle)
next
  case (Cons i q)
  obtain n s c ks where e: "e = Element n s c ks" by (cases e)
  show ?case unfolding e using Cons.IH by (simp add: childRefsFrom_update)
qed

lemma documentRefs_setStyle:
  "subtreeRefs Body [] (documentBody (setStyle r a v w)) = subtreeRefs Body [] (documentBody w)"
  by (cases r; cases "fst r") (simp_all add: setStyle_def subtreeRefs_modifyAt)

lemma getElementById_setStyle [simp]: "getElementById (setStyle r a v w) i = getElementById w i"
  by (simp add: getElementById_def documentRefs_setStyle)

lemma getElementById_fields [simp]:
  "getElementById (w\<lparr>headStyles := a\<rparr>) = getElementById w"
  "getElementById (w\<lparr>styleNodesCreated := b\<rparr>) = getElementById w"
  "getElementById (w\<lparr>elementStates := c\<rparr>) = getElementById w"
  "getElementById (w\<lparr>fullscreenStyleElement := d\<rparr>) = getElementById w"
  "getElementById (w\<lparr>cleanupTimer := e\<rparr>) = getElementById w"
  "getElementById (w\<lparr>console := f\<rparr>) = getElementById w"
  by (simp_all add: getElementById_def fun_eq_iff)

lemma getElementById_hideAll [simp]: "getElementById (hideAll ts w) i = getElementById w i"
  by (induction ts arbitrary: w) simp_all

lemma getElementById_applyStyles [simp]: "getElementById (applyStyles e kvs w) i = getElementById w i"
  by (induction kvs rule: rev_induct) simp_all

lemma getElementById_restoreHidden [simp]: "getElementById (restoreHidden hs w) i = getElementById w i"
  by (induction hs rule: rev_induct) simp_all

lemma getElementById_removeAddedStyle [simp]:
  "getElementById (removeAddedStyle h w) i = getElementById w i"
  by (simp add: removeAddedStyle_def split: option.splits)

lemma getElementById_entered [simp]: "getElementById (entered e sty w) i = getElementById w i"
  by (simp add: entered_def Let_def)

lemma getElementById_exited [simp]: "getElementById (exited e st w) i = getElementById w i"
  by (simp add: exited_def Let_def restoreElementState_eq split: option.splits)

lemma cleanup_clears:
  "elementStates (cleanup w) = [] \<and> fullscreenStyleElement (cleanup w) = None
   \<and> cleanupTimer (cleanup w) = None"
proof -
  have "cleanupTimer (forEachState cleanupEntry ks v) = cleanupTimer v" for ks v
  proof (induction ks arbitrary: v)
    case Nil
    then show ?case by simp
  next
    case (Cons k ks)
    have "cleanupTimer (cleanupEntry k v) = cleanupTimer v"
      by (auto simp: cleanupEntry_def exitFullscreen_def isElementFullscreen_def toggle_exit
            split: option.splits sum.splits)
    then show ?case using Cons by simp
  qed
  then show ?thesis by (simp add: cleanup_def Let_def split: option.splits)
qed

lemma sweep_deletes:
  "elementStates (foldl (\<lambda>w i. w\<lparr>elementStates := AList.delete i (elementStates w)\<rparr>) w ids)
     = filter (\<lambda>entry. fst entry \<notin> set ids) (elementStates w)"
  by (induction ids arbitrary: w) (auto simp: AList.delete_eq case_prod_beta intro!: filter_cong)

lemma sweep_keeps:
  "headStyles (foldl (\<lambda>w i. w\<lparr>elementStates := AList.delete i (elementStates w)\<rparr>) w ids) = headStyles w"
  "fullscreenStyleElement (foldl (\<lambda>w i. w\<lparr>elementStates := AList.delete i (elementStates w)\<rparr>) w ids)
     = fullscreenStyleElement w"
  by (induction ids arbitrary: w; simp)+

lemma sweepTick_result:
  "elementStates (sweepTick intervalMs w)
     = filter (\<lambda>entry. getElementById w (fst entry) \<noteq> None) (elementStates w)
   \<and> headStyles (sweepTick intervalMs w) = headStyles w
   \<and> fullscreenStyleElement (sweepTick intervalMs w) = fullscreenStyleElement w"
proof -
  have "filter (\<lambda>entry. fst entry \<notin> set (filter (\<lambda>i. getElementById w i = None) (map fst (elementStates w))))
          (elementStates w)
      = filter (\<lambda>entry. getElementById w (fst entry) \<noteq> None) (elementStates w)"
    by (rule filter_cong) auto
  then show ?thesis
    by (simp add: sweepTick_def schedulePeriodicCleanup_def Let_def sweep_deletes sweep_keeps)
qed

subsection \<open>Style elements that are never removed\<close>

lemma example_fields [simp]:
  "headStyles exampleWorld = []" "styleNodesCreated exampleWorld = 0"
  "elementStates exampleWorld = []" "fullscreenStyleElement exampleWorld = None"
  by (simp_all add: exampleWorld_def)

lemma example_byId:
  "getElementById exampleWorld ''A'' = Some refA"
  "getElementById exampleWorld ''inner'' = Some refInner"
  by (simp_all add: getElementById_def elementId_def lookupEl_def example_defs)

lemma processed_example:
  "processFullscreenStyle ''${blockId}.x { }'' ''A'' = ''#A .x { }''"
  "processFullscreenStyle ''${blockId}.y { }'' ''inner'' = ''#inner .y { }''"
  by (simp_all add: processFullscreenStyle_def placeholder_def)

lemma enteredNested_eq:
  "enteredNested = entered refInner ''${blockId}.y { }'' (entered refA ''${blockId}.x { }'' exampleWorld)"
  by (simp add: enteredNested_def enteredA_eq toggle_enter)

lemma enteredNested_states:
  "elementStates enteredNested =
     [(''A'', savedState refA exampleWorld), (''inner'', savedState refInner enteredA)]"
  by (simp add: enteredNested_eq enteredA_eq)

lemma enteredNested_styles:
  "headStyles enteredNested = [(0, ''#A .x { }''), (1, ''#inner .y { }'')]"
  "fullscreenStyleElement enteredNested = Some 1"
  by (simp_all add: enteredNested_eq processed_example)

lemma leftA_eq: "leftA = exited refA (savedState refA exampleWorld) enteredNested"
proof -
  have "map_of (elementStates enteredNested) (elementId enteredNested refA)
      = Some (savedState refA exampleWorld)"
    by (simp add: enteredNested_states) (simp add: enteredNested_eq)
  then show ?thesis by (simp add: leftA_def toggle_exit)
qed

lemma leftBoth_eq: "leftBoth = exited refInner (savedState refInner enteredA) leftA"
proof -
  have "elementStates leftA = [(''inner'', savedState refInner enteredA)]"
    by (simp add: leftA_eq enteredNested_states) (simp add: enteredNested_eq)
  moreover have "elementId leftA refInner = ''inner''"
    by (simp add: leftA_eq enteredNested_eq)
  ultimately have "map_of (elementStates leftA) (elementId leftA refInner)
      = Some (savedState refInner enteredA)"
    by simp
  then show ?thesis by (simp add: leftBoth_def toggle_exit)
qed

text \<open>
  Claim C2 fails on the code. The manager has one field \<open>fullscreenStyleElement\<close> for
  all sessions. \<open>A\<close> and \<open>inner\<close> have different ids and each enters with a style
  text: two style elements are in the document. Leaving \<open>A\<close> removes the style
  element of \<open>inner\<close>, whose session is still active, and after \<open>inner\<close> has left as
  well the style element of \<open>A\<close> is still in the document, which no later call can
  remove.
\<close>

theorem style_handle_shared_between_sessions:
  "elementId exampleWorld refA \<noteq> elementId exampleWorld refInner
   \<and> headStyles enteredNested = [(0, ''#A .x { }''), (1, ''#inner .y { }'')]
   \<and> headStyles leftA = [(0, ''#A .x { }'')]
   \<and> isElementFullscreen (Some refInner) leftA = Inr True
   \<and> headStyles leftBoth = [(0, ''#A .x { }'')]
   \<and> elementStates leftBoth = []"
proof -
  have a: "headStyles leftA = [(0, ''#A .x { }'')]"
    by (simp add: leftA_eq enteredNested_styles)
  have s: "elementStates leftA = [(''inner'', savedState refInner enteredA)]"
    by (simp add: leftA_eq enteredNested_states) (simp add: enteredNested_eq)
  have i: "elementId leftA refInner = ''inner''"
    by (simp add: leftA_eq enteredNested_eq)
  have f: "isElementFullscreen (Some refInner) leftA = Inr True"
    by (simp add: isElementFullscreen_def s i)
  have n: "fullscreenStyleElement leftA = None"
    by (simp add: leftA_eq)
  have b: "headStyles leftBoth = [(0, ''#A .x { }'')]"
    by (simp add: leftBoth_eq n a)
  have e: "elementStates leftBoth = []"
    by (simp add: leftBoth_eq s i)
  show ?thesis using a f b e by (simp add: enteredNested_styles)
qed

text \<open>
  Claim C3 fails on the code. \<open>A\<close> has entered with a style text and has then been
  removed from the document. The sweep evicts the session, but it never touches
  \<open>fullscreenStyleElement\<close>: the style element stays in the document.
\<close>

theorem sweep_leaves_style_block:
  "getElementById destroyedA ''A'' = None
   \<and> map fst (elementStates destroyedA) = [''A'']
   \<and> elementStates (sweepTick 300000 destroyedA) = []
   \<and> headStyles (sweepTick 300000 destroyedA) = [(0, ''#A .x { }'')]
   \<and> fullscreenStyleElement (sweepTick 300000 destroyedA) = Some 0"
proof -
  have gone: "getElementById destroyedA ''A'' = None"
    by (simp add: getElementById_def destroyedA_def elementId_def lookupEl_def)
  have states: "elementStates destroyedA = [(''A'', savedState refA exampleWorld)]"
    by (simp add: destroyedA_def enteredA_eq)
  have styles: "headStyles destroyedA = [(0, ''#A .x { }'')]"
      "fullscreenStyleElement destroyedA = Some 0"
    by (simp_all add: destroyedA_def enteredA_eq processed_example)
  show ?thesis
    using sweepTick_result [of 300000 destroyedA] gone by (simp add: states styles)
qed

text \<open>
  Claim C5 fails on the code, by the defect of claim C2. With the sessions of \<open>A\<close> and
  \<open>inner\<close> in the store, \<open>cleanup\<close> empties the store and clears the field, but the
  style element of \<open>A\<close> stays in the document.
\<close>

theorem cleanup_leaves_style_block:
  "map fst (elementStates enteredNested) = [''A'', ''inner'']
   \<and> elementStates (cleanup enteredNested) = []
   \<and> headStyles (cleanup enteredNested) = [(0, ''#A .x { }'')]
   \<and> fullscreenStyleElement (cleanup enteredNested) = None"
proof -
  let ?stA = "savedState refA exampleWorld"
  let ?stI = "savedState refInner enteredA"
  let ?w1 = "enteredNested\<lparr>cleanupTimer := None\<rparr>"
  let ?w2 = "exited refA ?stA ?w1"
  let ?w3 = "exited refInner ?stI ?w2"
  have ids: "elementId enteredNested refA = ''A''" "elementId enteredNested refInner = ''inner''"
    by (simp_all add: enteredNested_eq)
  have byId: "getElementById enteredNested ''A'' = Some refA"
      "getElementById enteredNested ''inner'' = Some refInner"
    by (simp_all add: enteredNested_eq example_byId)
  have has1: "map_of (elementStates ?w1) (elementId ?w1 refA) = Some ?stA"
    by (simp add: enteredNested_states ids)
  have exit1: "exitFullscreen (Some refA) ?w1 = Inr ?w2"
    using has1 toggle_exit [OF has1, of "[]"]
    by (simp add: exitFullscreen_def isElementFullscreen_def)
  have first: "cleanupEntry ''A'' ?w1 = ?w2"
    using exit1 by (simp add: cleanupEntry_def byId)
  have s2: "elementStates ?w2 = [(''inner'', ?stI)]"
    by (simp add: enteredNested_states ids)
  have has2: "map_of (elementStates ?w2) (elementId ?w2 refInner) = Some ?stI"
    unfolding s2 by (simp add: ids)
  have exit2: "exitFullscreen (Some refInner) ?w2 = Inr ?w3"
    using has2 toggle_exit [OF has2, of "[]"]
    by (simp add: exitFullscreen_def isElementFullscreen_def)
  have second: "cleanupEntry ''inner'' ?w2 = ?w3"
    using exit2 by (simp add: cleanupEntry_def byId)
  have present: "map_of (elementStates ?w2) ''inner'' \<noteq> None"
    unfolding s2 by simp
  have loop: "forEachState cleanupEntry (map fst (elementStates enteredNested)) ?w1 = ?w3"
    using present by (simp add: enteredNested_states first second)
  have "headStyles ?w3 = [(0, ''#A .x { }'')]"
    by (simp add: enteredNested_styles)
  moreover have "fullscreenStyleElement ?w3 = None" by simp
  ultimately have "headStyles (cleanup enteredNested) = [(0, ''#A .x { }'')]"
    by (simp add: cleanup_def Let_def loop del: exited_frame headStyles_exited)
  then show ?thesis using cleanup_clears [of enteredNested] by (simp add: enteredNested_states)
qed

subsection \<open>Styles that leaving does not give back\<close>






text \<open>
  A second way the round trip loses a style: for a sibling in a tree outside the
  document the computed \<open>display\<close> is the empty text, which is what entering records
  and leaving assigns, so the sibling's inline \<open>display\<close> is erased.
\<close>

lemma detached_sibling_display_erased:
  "getStyle detachedWorld refS Display = ''inline-block''
   \<and> getStyle (projr (toggleFullscreen (Some refK) True [] detachedWorld)) refS Display = ''none''
   \<and> getStyle (projr (toggleFullscreen (Some refK) False []
         (projr (toggleFullscreen (Some refK) True [] detachedWorld)))) refS Display = []"
proof -
  let ?w1 = "entered refK [] detachedWorld"
  let ?st = "savedState refK detachedWorld"
  have look: "lookupEl detachedWorld refS
      = Some (Element ''S'' (unstyled(Display := ''inline-block'')) outsideDocument [])"
      "lookupEl detachedWorld refK = Some (Element ''K'' unstyled outsideDocument [])"
    by (simp_all add: lookupEl_def detachedWorld_def refS_def refK_def)
  have targets: "hideTargets detachedWorld (Loose 0) [0] = [refS]"
    by (simp add: childrenOf_def lookupEl_def detachedWorld_def unrelated_def containsNode_def
          suffix_Cons refS_def)
  have el: "isElement detachedWorld refS" "isElement detachedWorld refK"
    by (simp_all add: isElement_def look)
  have before: "getStyle detachedWorld refS Display = ''inline-block''"
    by (simp add: getStyle_def look)
  have computed: "computedDisplay detachedWorld refS = []"
    by (simp add: computedDisplay_def look outsideDocument_def)
  have distinct: "refS \<noteq> refK"
    by (simp add: refS_def refK_def)
  have during: "getStyle ?w1 refS Display = ''none''"
    using targets el distinct
    by (simp add: getStyle_entered del: hideTargets.simps) (simp add: refK_def)
  have session: "map_of (elementStates ?w1) (elementId ?w1 refK) = Some ?st"
    by (simp add: update_conv')
  have after: "getStyle (exited refK ?st ?w1) refS Display = []"
    using targets el computed distinct
    by (simp add: getStyle_exited getStyle_restore_saved del: hideTargets.simps)
       (simp add: refK_def)
  show ?thesis
    using before during after toggle_exit [OF session, of "[]"] by (simp add: toggle_enter)
qed

end
